theory Spec2Isabelle
  imports Main "HOL-Library.Word" "HOL-Library.Multiset"
begin

unbundle bit_operations_syntax

section \<open>Outcomes of a Go call\<close>

text \<open>
  A Go call either returns, panics (a run-time error that unwinds the program), or ends the
  process through \<open>logger.Fatalf\<close>. A returned \<open>(value, error)\<close> pair is a sum
  \<open>string + 'a\<close>: \<open>Inl msg\<close> is a non-nil error whose \<open>Error()\<close> text is \<open>msg\<close>.
  A call that never returns has no outcome at all: such functions return an
  \<open>option\<close>, and \<open>None\<close> is divergence.
\<close>

datatype 'a outcome = Returns 'a | Panics string | Fatal string

section \<open>Decimal digits\<close>

definition digit_val :: "char \<Rightarrow> nat option" where
  "digit_val = map_of (zip ''0123456789'' [0, 1, 2, 3, 4, 5, 6, 7, 8, 9])"

section \<open>Package net of the Go library: the operations Hosts uses\<close>

text \<open>
  \<open>net.IP\<close> and \<open>net.IPMask\<close> are byte slices; the nil slice is the empty list.
  The definitions below follow the library's \<open>To4\<close>, \<open>Mask\<close>,
  \<open>networkNumberAndMask\<close>, \<open>Contains\<close> and \<open>CIDRMask\<close>.
\<close>

type_synonym byte = "8 word"
type_synonym IP = "byte list"
type_synonym IPMask = "byte list"

record IPNet =
  net_IP :: IP
  net_Mask :: IPMask

definition v4InV6Prefix :: "byte list" where
  "v4InV6Prefix = [0, 0, 0, 0, 0, 0, 0, 0, 0, 0, 0xff, 0xff]"

definition allFF :: "byte list \<Rightarrow> bool" where
  "allFF b = list_all (\<lambda>c. c = 0xff) b"

definition To4 :: "IP \<Rightarrow> IP" where
  "To4 ip =
     (if length ip = 4 then ip
      else if length ip = 16 \<and> take 12 ip = v4InV6Prefix then drop 12 ip
      else [])"

definition ip_Mask :: "IP \<Rightarrow> IPMask \<Rightarrow> IP" where
  "ip_Mask ip0 mask0 =
     (let mask = (if length mask0 = 16 \<and> length ip0 = 4 \<and> allFF (take 12 mask0)
                  then drop 12 mask0 else mask0);
          ip = (if length mask = 4 \<and> length ip0 = 16 \<and> take 12 ip0 = v4InV6Prefix
                then drop 12 ip0 else ip0);
          n = length ip
      in if n \<noteq> length mask then []
         else map (\<lambda>i. (ip ! i) AND (mask ! i)) [0..<n])"

definition networkNumberAndMask :: "IPNet \<Rightarrow> IP \<times> IPMask" where
  "networkNumberAndMask n =
     (let ip4 = To4 (net_IP n) in
      if ip4 = [] \<and> length (net_IP n) \<noteq> 16 then ([], [])
      else
        let ip = (if ip4 = [] then net_IP n else ip4);
            m = net_Mask n
        in if length m = 4 then (if length ip \<noteq> 4 then ([], []) else (ip, m))
           else if length m = 16 then (if length ip = 4 then (ip, drop 12 m) else (ip, m))
           else ([], []))"

definition Contains :: "IPNet \<Rightarrow> IP \<Rightarrow> bool" where
  "Contains n ip0 =
     (let (nn, m) = networkNumberAndMask n;
          x = To4 ip0;
          ip = (if x \<noteq> [] then x else ip0);
          l = length ip
      in if l \<noteq> length nn then False
         else list_all (\<lambda>i. (nn ! i) AND (m ! i) = (ip ! i) AND (m ! i)) [0..<l])"

text \<open>
  \<open>CIDRMask ones bits\<close>: the loop over the \<open>bits / 8\<close> bytes of the mask, with the
  count \<open>n\<close> of one-bits still to place.
\<close>

fun CIDRMask_loop :: "nat \<Rightarrow> nat \<Rightarrow> byte list" where
  "CIDRMask_loop 0 n = []"
| "CIDRMask_loop (Suc l) n =
     (if n \<ge> 8 then 0xff # CIDRMask_loop l (n - 8)
      else NOT (drop_bit n (0xff :: byte)) # CIDRMask_loop l 0)"

definition CIDRMask :: "int \<Rightarrow> int \<Rightarrow> IPMask" where
  "CIDRMask ones bits =
     (if bits \<noteq> 32 \<and> bits \<noteq> 128 then []
      else if ones < 0 \<or> ones > bits then []
      else CIDRMask_loop (nat (bits div 8)) (nat ones))"

text \<open>
  What \<open>net.ParseCIDR\<close> returns for the text \<open>a.b.c.d/n\<close> of an IPv4 block
  (\<open>n \<le> 32\<close>): the address in its 16-byte form, and the network with the masked
  4-byte address and the 4-byte mask.
\<close>

definition v4block :: "byte \<Rightarrow> byte \<Rightarrow> byte \<Rightarrow> byte \<Rightarrow> nat \<Rightarrow> IP \<times> IPNet" where
  "v4block a b c d n =
     (let addr16 = v4InV6Prefix @ [a, b, c, d];
          m = CIDRMask (int n) 32
      in (addr16, \<lparr>net_IP = ip_Mask addr16 m, net_Mask = m\<rparr>))"

text \<open>
  The number a byte slice denotes, most significant byte first, and the 4-byte address of a
  number: they state which addresses \<open>Hosts\<close> enumerates. \<open>block_first\<close> is the
  number of the first (network) address of the block \<open>a.b.c.d/n\<close>.
\<close>

fun ip_val :: "IP \<Rightarrow> nat" where
  "ip_val [] = 0"
| "ip_val (b # bs) = unat b * 256 ^ length bs + ip_val bs"

fun bytes_of :: "nat \<Rightarrow> nat \<Rightarrow> IP" where
  "bytes_of 0 v = []"
| "bytes_of (Suc l) v = of_nat (v div 256 ^ l) # bytes_of l v"

definition addr4 :: "nat \<Rightarrow> IP" where
  "addr4 v = [of_nat (v div 16777216), of_nat (v div 65536), of_nat (v div 256), of_nat v]"

definition block_first :: "byte \<Rightarrow> byte \<Rightarrow> byte \<Rightarrow> byte \<Rightarrow> nat \<Rightarrow> nat" where
  "block_first a b c d n = ip_val [a, b, c, d] div 2 ^ (32 - n) * 2 ^ (32 - n)"

text \<open>
  The library functions that are taken as parameters: the parser of the block's text and
  the textual form of an address.
\<close>

record netlib =
  ParseCIDR :: "string \<Rightarrow> string + IP \<times> IPNet"
  IP_String :: "IP \<Rightarrow> string"

section \<open>Package network: Hosts and inc\<close>

text \<open>
  \<open>inc\<close> runs \<open>j\<close> from \<open>len(ip) - 1\<close> down to 0; \<open>inc_loop k ip\<close> is the loop at
  \<open>j = k - 1\<close>, and \<open>inc_loop 0\<close> is its exit at \<open>j < 0\<close>. \<open>ip[j]++\<close> wraps at 255.
\<close>

fun inc_loop :: "nat \<Rightarrow> IP \<Rightarrow> IP" where
  "inc_loop 0 ip = ip"
| "inc_loop (Suc j) ip =
     (let ip' = ip[j := ip ! j + 1]
      in if ip' ! j > 0 then ip' else inc_loop j ip')"

definition inc :: "IP \<Rightarrow> IP" where
  "inc ip = inc_loop (length ip) ip"

text \<open>
  The slice expression \<open>s[lo:hi]\<close>: a run-time panic unless \<open>0 \<le> lo \<le> hi \<le> cap(s)\<close>.
  The slices built here by \<open>append\<close> are only ever sliced with \<open>hi \<le> len(s)\<close>.
\<close>

definition slice :: "'a list \<Rightarrow> int \<Rightarrow> int \<Rightarrow> 'a list outcome" where
  "slice s lo hi =
     (if 0 \<le> lo \<and> lo \<le> hi \<and> hi \<le> int (length s)
      then Returns (take (nat (hi - lo)) (drop (nat lo) s))
      else Panics ''runtime error: slice bounds out of range'')"

text \<open>
  The loop of \<open>Hosts\<close>: \<open>for ip := ip.Mask(ipnet.Mask); ipnet.Contains(ip); inc(ip)\<close>,
  appending \<open>ip.String()\<close> to \<open>ips\<close>. Nothing bounds the number of iterations, so the
  loop is a partial function and \<open>None\<close> means that it never ends.
\<close>

partial_function (option) Hosts_loop ::
  "(IP \<Rightarrow> string) \<Rightarrow> IPNet \<Rightarrow> IP \<Rightarrow> string list \<Rightarrow> string list option" where
  "Hosts_loop str ipnet ip ips =
     (if Contains ipnet ip then Hosts_loop str ipnet (inc ip) (ips @ [str ip])
      else Some ips)"

definition Hosts :: "netlib \<Rightarrow> string \<Rightarrow> (string + string list) outcome option" where
  "Hosts lib cidr =
     (case ParseCIDR lib cidr of
        Inl err \<Rightarrow> Some (Returns (Inl err))
      | Inr (ip, ipnet) \<Rightarrow>
          (case Hosts_loop (IP_String lib) ipnet (ip_Mask ip (net_Mask ipnet)) [] of
             None \<Rightarrow> None
           | Some ips \<Rightarrow>
               (case slice ips 1 (int (length ips) - 1) of
                  Returns hs \<Rightarrow> Some (Returns (Inr hs))
                | Panics msg \<Rightarrow> Some (Panics msg)
                | Fatal msg \<Rightarrow> Some (Fatal msg))))"

subsection \<open>ScanNetwork\<close>

text \<open>
  \<open>ScanNetwork\<close> starts one goroutine per host and waits for all of them. A goroutine
  asks \<open>isCouchDBRunning\<close> and, on a positive answer, appends its host to
  \<open>foundIPs\<close> while it holds the mutex, so each append is one indivisible step.
  A configuration is the list of hosts the \<open>for\<close> loop has not reached yet, the
  multiset of goroutines started and not finished, and \<open>foundIPs\<close>. The scheduler
  picks any enabled step; \<open>wg.Wait()\<close> returns when nothing is left to start or to
  finish. What is written to the logger is not modelled.
\<close>

type_synonym scan_config = "string list \<times> string multiset \<times> string list"

inductive scan_step :: "(string \<Rightarrow> string \<Rightarrow> bool) \<Rightarrow> string \<Rightarrow> scan_config \<Rightarrow> scan_config \<Rightarrow> bool"
  for isCouchDBRunning :: "string \<Rightarrow> string \<Rightarrow> bool" and couchDBPort :: string where
  go: "scan_step isCouchDBRunning couchDBPort (ip # ips, running, foundIPs)
         (ips, add_mset ip running, foundIPs)"
| found: "ip \<in># running \<Longrightarrow> isCouchDBRunning ip couchDBPort \<Longrightarrow>
     scan_step isCouchDBRunning couchDBPort (ips, running, foundIPs)
       (ips, running - {#ip#}, foundIPs @ [ip])"
| not_found: "ip \<in># running \<Longrightarrow> \<not> isCouchDBRunning ip couchDBPort \<Longrightarrow>
     scan_step isCouchDBRunning couchDBPort (ips, running, foundIPs)
       (ips, running - {#ip#}, foundIPs)"

text \<open>
  The outcomes of \<open>ScanNetwork\<close>: a parse error ends the process through
  \<open>logger.Fatalf\<close>, a panic of \<open>Hosts\<close> is a panic of the caller, and otherwise the
  call returns the \<open>foundIPs\<close> of a completed run. When \<open>Hosts\<close> does not return,
  there is no outcome.
\<close>

inductive ScanNetwork ::
  "netlib \<Rightarrow> string \<Rightarrow> string \<Rightarrow> (string \<Rightarrow> string \<Rightarrow> bool) \<Rightarrow> string list outcome \<Rightarrow> bool"
  for lib :: netlib and cidr :: string and couchDBPort :: string
    and isCouchDBRunning :: "string \<Rightarrow> string \<Rightarrow> bool" where
  parse_error: "Hosts lib cidr = Some (Returns (Inl err)) \<Longrightarrow>
     ScanNetwork lib cidr couchDBPort isCouchDBRunning
       (Fatal (''Error parsing CIDR: '' @ err @ [CHR 0x0A]))"
| hosts_panic: "Hosts lib cidr = Some (Panics msg) \<Longrightarrow>
     ScanNetwork lib cidr couchDBPort isCouchDBRunning (Panics msg)"
| scanned: "Hosts lib cidr = Some (Returns (Inr ips)) \<Longrightarrow>
     (scan_step isCouchDBRunning couchDBPort)\<^sup>*\<^sup>* (ips, {#}, []) ([], {#}, foundIPs) \<Longrightarrow>
     ScanNetwork lib cidr couchDBPort isCouchDBRunning (Returns foundIPs)"

text \<open>
  The hosts already reported together with the reachable hosts still to be started or
  finished: the quantity every step of a scan preserves.
\<close>

definition scan_measure :: "(string \<Rightarrow> string \<Rightarrow> bool) \<Rightarrow> string \<Rightarrow> scan_config \<Rightarrow> string multiset" where
  "scan_measure f p c =
     mset (snd (snd c)) + filter_mset (\<lambda>ip. f ip p) (mset (fst c) + fst (snd c))"

subsection \<open>An instance of the library for IPv4 text\<close>

text \<open>
  \<open>ParseCIDR_v4\<close> reads the text \<open>a.b.c.d/n\<close> as \<open>net.ParseCIDR\<close> does: four
  decimal fields of at most three digits, none with a leading zero, each at most 255, and a
  decimal prefix length of at most 32. It rejects every other text (the library also
  accepts IPv6 text), so it stands for the library on IPv4 text only.
  \<open>IP_String_v4\<close> is the dotted-decimal form of a 4-byte address.
\<close>

fun dtoi_loop :: "nat \<Rightarrow> string \<Rightarrow> nat option" where
  "dtoi_loop acc [] = Some acc"
| "dtoi_loop acc (c # cs) =
     (case digit_val c of None \<Rightarrow> None | Some d \<Rightarrow> dtoi_loop (acc * 10 + d) cs)"

definition parse_decimal :: "string \<Rightarrow> nat option" where
  "parse_decimal s = (if s = [] then None else dtoi_loop 0 s)"

definition parse_octet :: "string \<Rightarrow> byte option" where
  "parse_octet s =
     (if length s > 3 \<or> (length s > 1 \<and> hd s = CHR ''0'') then None
      else case parse_decimal s of
             None \<Rightarrow> None
           | Some v \<Rightarrow> if v \<le> 255 then Some (of_nat v) else None)"

fun split_acc :: "char \<Rightarrow> string \<Rightarrow> string \<Rightarrow> string list" where
  "split_acc c cur [] = [cur]"
| "split_acc c cur (x # xs) =
     (if x = c then cur # split_acc c [] xs else split_acc c (cur @ [x]) xs)"

definition ParseCIDR_v4 :: "string \<Rightarrow> string + IP \<times> IPNet" where
  "ParseCIDR_v4 s =
     (let err = Inl (''invalid CIDR address: '' @ s) in
      if CHR ''/'' \<notin> set s then err
      else
        let addr = takeWhile (\<lambda>x. x \<noteq> CHR ''/'') s;
            mask = tl (dropWhile (\<lambda>x. x \<noteq> CHR ''/'') s)
        in case (map parse_octet (split_acc CHR ''.'' [] addr), parse_decimal mask) of
             ([Some a, Some b, Some c, Some d], Some n) \<Rightarrow>
               if n \<le> 32 then Inr (v4block a b c d n) else err
           | _ \<Rightarrow> err)"

definition digit_char :: "nat \<Rightarrow> char" where
  "digit_char d = ''0123456789'' ! d"

definition dec_byte :: "byte \<Rightarrow> string" where
  "dec_byte b =
     (let v = unat b in
      if v < 10 then [digit_char v]
      else if v < 100 then [digit_char (v div 10), digit_char (v mod 10)]
      else [digit_char (v div 100), digit_char (v div 10 mod 10), digit_char (v mod 10)])"

definition IP_String_v4 :: "IP \<Rightarrow> string" where
  "IP_String_v4 ip =
     (if length ip = 4
      then dec_byte (ip ! 0) @ ''.'' @ dec_byte (ip ! 1) @ ''.'' @ dec_byte (ip ! 2) @ ''.''
             @ dec_byte (ip ! 3)
      else ''?'')"

definition lib_v4 :: netlib where
  "lib_v4 = \<lparr>ParseCIDR = ParseCIDR_v4, IP_String = IP_String_v4\<rparr>"

section \<open>Package couchdb\<close>

text \<open>
  A JSON value as \<open>encoding/json\<close> decodes it into \<open>interface{}\<close>; a document is a
  \<open>map[string]interface{}\<close>. A number is a \<open>float64\<close> in Go; the program never looks
  at one, and the model keeps an integer in its place.
\<close>

datatype jsonval =
    JNull
  | JBool bool
  | JNumber int
  | JString string
  | JArray "jsonval list"
  | JObject "(string \<times> jsonval) list"

type_synonym doc = "string \<rightharpoonup> jsonval"

record CouchDBClient =
  BaseURL :: string
  DBName :: string

record Document =
  doc_ID :: string
  doc_Rev :: string
  DeletedConflicts :: "string list"

record Row =
  row_ID :: string
  row_Key :: string
  row_Value :: Document

record QueryResponse =
  TotalRows :: int
  Offset :: int
  Rows :: "Row list"

text \<open>
  The outside world. A request is what the client hands to \<open>net/http\<close>. The server and
  the network are an oracle \<open>Do\<close> that answers a request given the requests made before
  it, so the server may keep state: its answer is an error of \<open>http.NewRequest\<close>
  (or of \<open>http.Get\<close> before sending), an error of sending, an error of
  \<open>ioutil.ReadAll\<close>, or a status code with a body. The log records, in order, every
  request the client builds, also one that \<open>http.NewRequest\<close> rejects or that cannot
  be sent. The functions of \<open>encoding/json\<close> are parameters as well.
  An \<open>error\<close> is its message; \<open>None\<close> is the nil error. Output written with
  \<open>fmt.Printf\<close> or to the logger is not modelled.
\<close>

record request =
  req_method :: string
  req_url :: string
  req_body :: "string option"
  req_content_type :: "string option"

datatype http_result =
    NewRequestError string
  | DoError string
  | ReadAllError string
  | Response nat string

record env =
  Do :: "request list \<Rightarrow> request \<Rightarrow> http_result"
  json_Marshal :: "doc \<Rightarrow> string + string"
  Unmarshal_doc :: "string \<Rightarrow> string + doc"
  Unmarshal_revs_info :: "string \<Rightarrow> string + string list"
  Unmarshal_QueryResponse :: "string \<Rightarrow> string + QueryResponse"

definition exchange :: "env \<Rightarrow> request \<Rightarrow> request list \<Rightarrow> http_result \<times> request list" where
  "exchange e req log = (Do e log req, log @ [req])"

definition StatusOK :: nat where "StatusOK = 200"
definition StatusCreated :: nat where "StatusCreated = 201"
definition StatusAccepted :: nat where "StatusAccepted = 202"
definition StatusNotFound :: nat where "StatusNotFound = 404"

text \<open>\<open>strings.Contains s substr\<close>: \<open>substr\<close> occurs in \<open>s\<close>.\<close>

fun strings_Contains :: "string \<Rightarrow> string \<Rightarrow> bool" where
  "strings_Contains [] substr = (substr = [])"
| "strings_Contains (c # s) substr =
     (take (length substr) (c # s) = substr \<or> strings_Contains s substr)"

definition doc_url :: "CouchDBClient \<Rightarrow> string \<Rightarrow> string" where
  "doc_url c docID = BaseURL c @ ''/'' @ DBName c @ ''/'' @ docID"

definition get_request :: "string \<Rightarrow> request" where
  "get_request url =
     \<lparr>req_method = ''GET'', req_url = url, req_body = None, req_content_type = None\<rparr>"

definition delete_request :: "string \<Rightarrow> request" where
  "delete_request url =
     \<lparr>req_method = ''DELETE'', req_url = url, req_body = None, req_content_type = None\<rparr>"

definition put_request :: "string \<Rightarrow> string \<Rightarrow> request" where
  "put_request url body =
     \<lparr>req_method = ''PUT'', req_url = url, req_body = Some body,
      req_content_type = Some ''application/json''\<rparr>"

definition GetDocument ::
  "CouchDBClient \<Rightarrow> env \<Rightarrow> string \<Rightarrow> request list \<Rightarrow> (string + doc) \<times> request list" where
  "GetDocument c e docID log =
     (case exchange e (get_request (doc_url c docID)) log of
        (NewRequestError err, l) \<Rightarrow> (Inl err, l)
      | (DoError err, l) \<Rightarrow> (Inl err, l)
      | (ReadAllError err, l) \<Rightarrow> (Inl err, l)
      | (Response status body, l) \<Rightarrow>
          if status \<noteq> StatusOK then (Inl (''failed to fetch document: '' @ body), l)
          else (case Unmarshal_doc e body of
                  Inl err \<Rightarrow> (Inl err, l)
                | Inr d \<Rightarrow> (Inr d, l)))"

text \<open>
  \<open>GetAllRevisions\<close> decodes the \<open>_revs_info\<close> array and copies the \<open>rev\<close> of each
  entry, in order; \<open>Unmarshal_revs_info\<close> gives these \<open>rev\<close> strings.
\<close>

definition GetAllRevisions ::
  "CouchDBClient \<Rightarrow> env \<Rightarrow> string \<Rightarrow> request list \<Rightarrow> (string + string list) \<times> request list" where
  "GetAllRevisions c e docID log =
     (case exchange e (get_request (doc_url c docID @ ''?revs_info=true'')) log of
        (NewRequestError err, l) \<Rightarrow> (Inl err, l)
      | (DoError err, l) \<Rightarrow> (Inl err, l)
      | (ReadAllError err, l) \<Rightarrow> (Inl err, l)
      | (Response status body, l) \<Rightarrow>
          if status \<noteq> StatusOK then (Inl (''failed to fetch document revisions: '' @ body), l)
          else (case Unmarshal_revs_info e body of
                  Inl err \<Rightarrow> (Inl err, l)
                | Inr revisions \<Rightarrow> (Inr revisions, l)))"

definition revision_request :: "CouchDBClient \<Rightarrow> string \<Rightarrow> string \<Rightarrow> request" where
  "revision_request c docID rev' = delete_request (doc_url c docID @ ''?rev='' @ rev')"

definition DeleteDocumentRevision ::
  "CouchDBClient \<Rightarrow> env \<Rightarrow> string \<Rightarrow> string \<Rightarrow> request list \<Rightarrow> (string + string) \<times> request list" where
  "DeleteDocumentRevision c e docID rev' log =
     (case exchange e (revision_request c docID rev') log of
        (NewRequestError err, l) \<Rightarrow> (Inl err, l)
      | (DoError err, l) \<Rightarrow> (Inl err, l)
      | (ReadAllError err, l) \<Rightarrow> (Inl err, l)
      | (Response status body, l) \<Rightarrow>
          if status \<noteq> StatusOK then (Inl (''failed to delete document revision: '' @ body), l)
          else (Inr ''Revision deleted successfully'', l))"

fun DeleteAllRevisions ::
  "CouchDBClient \<Rightarrow> env \<Rightarrow> string \<Rightarrow> string list \<Rightarrow> request list \<Rightarrow> string option \<times> request list" where
  "DeleteAllRevisions c e docID [] log = (None, log)"
| "DeleteAllRevisions c e docID (rev' # revisions) log =
     (case DeleteDocumentRevision c e docID rev' log of
        (Inl err, l) \<Rightarrow>
          if strings_Contains err ''not_found'' then DeleteAllRevisions c e docID revisions l
          else (Some (''failed to delete revision '' @ rev' @ '': '' @ err), l)
      | (Inr resp, l) \<Rightarrow> DeleteAllRevisions c e docID revisions l)"

definition DeleteDocument ::
  "CouchDBClient \<Rightarrow> env \<Rightarrow> string \<Rightarrow> request list \<Rightarrow> string option \<times> request list" where
  "DeleteDocument c e docID log =
     (case exchange e (delete_request (doc_url c docID)) log of
        (NewRequestError err, l) \<Rightarrow> (Some err, l)
      | (DoError err, l) \<Rightarrow> (Some err, l)
      | (ReadAllError err, l) \<Rightarrow> (Some err, l)
      | (Response status body, l) \<Rightarrow>
          if status \<noteq> StatusOK \<and> status \<noteq> StatusNotFound
          then (Some (''failed to delete document: '' @ body), l)
          else (None, l))"

text \<open>
  \<open>CreateDocument\<close> starts with the type assertion \<open>doc["_id"].(string)\<close>, which panics
  unless the value stored under \<open>_id\<close> is a string. \<open>delete(doc, "_rev")\<close> changes the
  caller's map, so the function also returns the map as it is when the call ends.
\<close>

fun dynamic_type :: "jsonval option \<Rightarrow> string" where
  "dynamic_type None = ''nil''"
| "dynamic_type (Some JNull) = ''nil''"
| "dynamic_type (Some (JBool b)) = ''bool''"
| "dynamic_type (Some (JNumber n)) = ''float64''"
| "dynamic_type (Some (JString s)) = ''string''"
| "dynamic_type (Some (JArray xs)) = ''[]interface {}''"
| "dynamic_type (Some (JObject kvs)) = ''map[string]interface {}''"

definition CreateDocument ::
  "CouchDBClient \<Rightarrow> env \<Rightarrow> doc \<Rightarrow> request list \<Rightarrow> string option outcome \<times> doc \<times> request list" where
  "CreateDocument c e d log =
     (case d ''_id'' of
        Some (JString docID) \<Rightarrow>
          (let url = doc_url c docID;
               d' = d(''_rev'' := None)
           in case json_Marshal e d' of
                Inl err \<Rightarrow> (Returns (Some err), d', log)
              | Inr jsonDoc \<Rightarrow>
                  (case exchange e (put_request url jsonDoc) log of
                     (NewRequestError err, l) \<Rightarrow> (Returns (Some err), d', l)
                   | (DoError err, l) \<Rightarrow> (Returns (Some err), d', l)
                   | (ReadAllError err, l) \<Rightarrow> (Returns (Some err), d', l)
                   | (Response status body, l) \<Rightarrow>
                       if status \<noteq> StatusCreated
                       then (Returns (Some (''failed to create document: '' @ body)), d', l)
                       else (Returns None, d', l)))
      | v \<Rightarrow>
          (Panics (''interface conversion: interface {} is '' @ dynamic_type v @ '', not string''),
           d, log))"

definition ResetDocument ::
  "CouchDBClient \<Rightarrow> env \<Rightarrow> string \<Rightarrow> request list \<Rightarrow> string option outcome \<times> request list" where
  "ResetDocument c e docID log =
     (case GetDocument c e docID log of
        (Inl err, l1) \<Rightarrow> (Returns (Some (''failed to fetch document: '' @ err)), l1)
      | (Inr d, l1) \<Rightarrow>
     (case GetAllRevisions c e docID l1 of
        (Inl err, l2) \<Rightarrow> (Returns (Some (''failed to get revisions: '' @ err)), l2)
      | (Inr revisions, l2) \<Rightarrow>
     (case DeleteAllRevisions c e docID revisions l2 of
        (Some err, l3) \<Rightarrow> (Returns (Some (''failed to delete all revisions: '' @ err)), l3)
      | (None, l3) \<Rightarrow>
     (case DeleteDocument c e docID l3 of
        (Some err, l4) \<Rightarrow> (Returns (Some (''failed to delete document: '' @ err)), l4)
      | (None, l4) \<Rightarrow>
     (case CreateDocument c e d l4 of
        (Returns (Some err), d', l5) \<Rightarrow>
          (Returns (Some (''failed to recreate document: '' @ err)), l5)
      | (Returns None, d', l5) \<Rightarrow> (Returns None, l5)
      | (Panics msg, d', l5) \<Rightarrow> (Panics msg, l5)
      | (Fatal msg, d', l5) \<Rightarrow> (Fatal msg, l5))))))"

text \<open>
  \<open>HandleQueryResponse\<close>: the inner loop over the \<open>DeletedConflicts\<close> of one row's
  document, and the outer loop over the rows.
\<close>

fun delete_conflicts ::
  "CouchDBClient \<Rightarrow> env \<Rightarrow> Document \<Rightarrow> string list \<Rightarrow> request list \<Rightarrow> string option \<times> request list" where
  "delete_conflicts c e d [] log = (None, log)"
| "delete_conflicts c e d (conflictRev # revs) log =
     (case DeleteDocumentRevision c e (doc_ID d) conflictRev log of
        (Inl err, l) \<Rightarrow>
          (Some (''failed to delete conflict for document '' @ doc_ID d @ '': '' @ err), l)
      | (Inr deleteResp, l) \<Rightarrow> delete_conflicts c e d revs l)"

fun handle_rows ::
  "CouchDBClient \<Rightarrow> env \<Rightarrow> Row list \<Rightarrow> request list \<Rightarrow> string option \<times> request list" where
  "handle_rows c e [] log = (None, log)"
| "handle_rows c e (row # rows) log =
     (let d = row_Value row in
      if length (DeletedConflicts d) > 0
      then (case delete_conflicts c e d (DeletedConflicts d) log of
              (Some err, l) \<Rightarrow> (Some err, l)
            | (None, l) \<Rightarrow> handle_rows c e rows l)
      else handle_rows c e rows log)"

definition HandleQueryResponse ::
  "CouchDBClient \<Rightarrow> env \<Rightarrow> string \<Rightarrow> request list \<Rightarrow> string option \<times> request list" where
  "HandleQueryResponse c e queryResponse log =
     (case Unmarshal_QueryResponse e queryResponse of
        Inl err \<Rightarrow> (Some err, log)
      | Inr response \<Rightarrow> handle_rows c e (Rows response) log)"

definition CreateDesignDocument ::
  "CouchDBClient \<Rightarrow> env \<Rightarrow> string \<Rightarrow> doc \<Rightarrow> request list \<Rightarrow> (string + string) \<times> request list" where
  "CreateDesignDocument c e designDocName designDoc log =
     (let url = BaseURL c @ ''/'' @ DBName c @ ''/_design/'' @ designDocName in
      case json_Marshal e designDoc of
        Inl err \<Rightarrow> (Inl (''failed to marshal design document: '' @ err), log)
      | Inr jsonDoc \<Rightarrow>
          (case exchange e (put_request url jsonDoc) log of
             (NewRequestError err, l) \<Rightarrow> (Inl err, l)
           | (DoError err, l) \<Rightarrow> (Inl err, l)
           | (ReadAllError err, l) \<Rightarrow> (Inl err, l)
           | (Response status body, l) \<Rightarrow> (Inr body, l)))"

text \<open>
  The flat view of \<open>HandleQueryResponse\<close> that the specification describes: the
  revision deletions it asks for, one per row and listed revision, in order, and their
  execution one after the other up to the first failure.
\<close>

definition conflict_calls :: "Row list \<Rightarrow> (string \<times> string) list" where
  "conflict_calls rows =
     concat (map (\<lambda>row. map (\<lambda>conflictRev. (doc_ID (row_Value row), conflictRev))
                            (DeletedConflicts (row_Value row))) rows)"

definition call_request :: "CouchDBClient \<Rightarrow> string \<times> string \<Rightarrow> request" where
  "call_request c call = revision_request c (fst call) (snd call)"

fun delete_each ::
  "CouchDBClient \<Rightarrow> env \<Rightarrow> (string \<times> string) list \<Rightarrow> request list \<Rightarrow> string option \<times> request list" where
  "delete_each c e [] log = (None, log)"
| "delete_each c e (call # calls) log =
     (case DeleteDocumentRevision c e (fst call) (snd call) log of
        (Inl err, l) \<Rightarrow>
          (Some (''failed to delete conflict for document '' @ fst call @ '': '' @ err), l)
      | (Inr deleteResp, l) \<Rightarrow> delete_each c e calls l)"

text \<open>
  The test \<open>DeleteAllRevisions\<close> makes on the result of one deletion before it goes on
  to the next revision: the deletion succeeded, or the text of its error contains
  \<open>not_found\<close> (\<open>strings.Contains(err.Error(), "not_found")\<close>). The test reads the
  error text only; the status code of the response is not available to it.
\<close>

definition done_or_not_found_text :: "string + string \<Rightarrow> bool" where
  "done_or_not_found_text r = (case r of Inr resp \<Rightarrow> True | Inl err \<Rightarrow> strings_Contains err ''not_found'')"

section \<open>Package main: the design index\<close>

text \<open>
  The design document that \<open>main\<close> installs under the name \<open>rev_filter\<close>: one view,
  \<open>high_rev_gen\<close>, whose map function is JavaScript source text.
\<close>

definition high_rev_gen_source :: string where
  \<open>high_rev_gen_source =
     ''function(doc) { var revGen = parseInt(doc._rev.split("-")[0]); if(revGen > 100000) { emit(doc._id, doc); } }''\<close>

definition designDoc :: doc where
  "designDoc =
     [''views'' \<mapsto> JObject [(''high_rev_gen'', JObject [(''map'', JString high_rev_gen_source)])]]"

text \<open>
  The install-index step of \<open>main\<close>: an error of \<open>CreateDesignDocument\<close> ends the
  process through \<open>logger.Fatalf\<close>, anything else lets the workflow go on.
\<close>

definition install_index :: "CouchDBClient \<Rightarrow> env \<Rightarrow> request list \<Rightarrow> unit outcome \<times> request list" where
  "install_index c e log =
     (case CreateDesignDocument c e ''rev_filter'' designDoc log of
        (Inl err, l) \<Rightarrow> (Fatal (''Failed to create design document: '' @ err), l)
      | (Inr response, l) \<Rightarrow> (Returns (), l))"

text \<open>
  The map function, read as the JavaScript it is. A value is \<open>undefined\<close>, a JSON value
  or the document object. \<open>parseInt\<close> with no radix skips leading white space (the ASCII white space
  characters here; the others take several bytes and do not occur in a revision id), reads a
  sign, takes the prefix \<open>0x\<close> or \<open>0X\<close> as radix 16 and otherwise radix 10, and reads
  digits as long as there are any; with no digit the result is \<open>NaN\<close>, here \<open>None\<close>,
  and \<open>NaN > 100000\<close> is false. JavaScript numbers are floating point, but rounding to
  the nearest representable number is monotone and 100000 and 100001 are represented
  exactly, so the comparison with 100000 agrees with the one on integers.
  \<open>doc._rev.split("-")[0]\<close> is the text before the first \<open>-\<close>, and throws a
  \<open>TypeError\<close> (\<open>Inl\<close>) when \<open>doc._rev\<close> is not a string.
\<close>

datatype jsvalue = JSUndefined | JSValue jsonval | JSObject doc

definition js_member :: "doc \<Rightarrow> string \<Rightarrow> jsvalue" where
  "js_member d k = (case d k of None \<Rightarrow> JSUndefined | Some v \<Rightarrow> JSValue v)"

definition js_whitespace :: "char \<Rightarrow> bool" where
  "js_whitespace ch = (ch \<in> set [CHR '' '', CHR 0x09, CHR 0x0A, CHR 0x0B, CHR 0x0C, CHR 0x0D])"

definition radix_digit :: "char \<Rightarrow> nat option" where
  "radix_digit ch =
     (case digit_val ch of
        Some v \<Rightarrow> Some v
      | None \<Rightarrow> map_of (zip ''abcdefABCDEF'' [10, 11, 12, 13, 14, 15, 10, 11, 12, 13, 14, 15]) ch)"

definition is_digit_of :: "nat \<Rightarrow> char \<Rightarrow> bool" where
  "is_digit_of radix ch = (case radix_digit ch of None \<Rightarrow> False | Some v \<Rightarrow> v < radix)"

fun digits_value :: "nat \<Rightarrow> nat \<Rightarrow> string \<Rightarrow> nat" where
  "digits_value radix acc [] = acc"
| "digits_value radix acc (ch # cs) =
     (case radix_digit ch of
        None \<Rightarrow> acc
      | Some v \<Rightarrow> digits_value radix (acc * radix + v) cs)"

definition parseInt :: "string \<Rightarrow> int option" where
  "parseInt s =
     (let s1 = dropWhile js_whitespace s;
          negative = (take 1 s1 = ''-'');
          s2 = (if take 1 s1 = ''-'' \<or> take 1 s1 = ''+'' then drop 1 s1 else s1);
          hex = (take 2 s2 = ''0x'' \<or> take 2 s2 = ''0X'');
          radix = (if hex then 16 else 10);
          s3 = (if hex then drop 2 s2 else s2);
          ds = takeWhile (is_digit_of radix) s3
      in if ds = [] then None
         else Some ((if negative then - 1 else 1) * int (digits_value radix 0 ds)))"

definition high_rev_gen_map :: "doc \<Rightarrow> string + (jsvalue \<times> jsvalue) list" where
  "high_rev_gen_map d =
     (case d ''_rev'' of
        Some (JString r) \<Rightarrow>
          (case parseInt (takeWhile (\<lambda>ch. ch \<noteq> CHR ''-'') r) of
             None \<Rightarrow> Inr []
           | Some revGen \<Rightarrow>
               if revGen > 100000 then Inr [(js_member d ''_id'', JSObject d)] else Inr [])
      | _ \<Rightarrow> Inl ''TypeError'')"

section \<open>Concrete inputs\<close>

text \<open>The inputs at which the theorems below are evaluated.\<close>

definition client1 :: CouchDBClient where
  "client1 = \<lparr>BaseURL = ''http://10.0.0.5:5984'', DBName = ''db''\<rparr>"

definition not_found_body :: string where
  \<open>not_found_body = ''{"error":"not_found","reason":"missing"}''\<close>

definition conflict_body :: string where
  \<open>conflict_body = ''{"error":"conflict","reason":"Document update conflict."}''\<close>

text \<open>
  A server on which revision \<open>2-b\<close> of \<open>doc1\<close> and the document \<open>gone\<close> are
  already gone, and one on which deleting that revision is refused. Both accept every other request; neither keeps state.
\<close>

definition env_gone :: env where
  "env_gone =
     \<lparr>Do = (\<lambda>log req.
              if req_url req = ''http://10.0.0.5:5984/db/doc1?rev=2-b''
                \<or> req_url req = ''http://10.0.0.5:5984/db/gone''
              then Response 404 not_found_body
              else if req_method req = ''PUT'' then Response 201 ''{}''
              else Response 200 ''{}''),
      json_Marshal = (\<lambda>d. Inr ''{}''),
      Unmarshal_doc = (\<lambda>b. Inr [''_id'' \<mapsto> JString ''doc1'', ''_rev'' \<mapsto> JString ''3-c'']),
      Unmarshal_revs_info = (\<lambda>b. Inr [''3-c'', ''2-b'', ''1-a'']),
      Unmarshal_QueryResponse = (\<lambda>b. Inr \<lparr>TotalRows = 0, Offset = 0, Rows = []\<rparr>)\<rparr>"

definition env_refused :: env where
  "env_refused =
     env_gone\<lparr>Do := (\<lambda>log req.
              if req_url req = ''http://10.0.0.5:5984/db/doc1?rev=2-b''
              then Response 409 conflict_body
              else if req_method req = ''PUT'' then Response 201 ''{}''
              else Response 200 ''{}'')\<rparr>"

text \<open>
  A query response with three rows: \<open>doc7\<close> with the deleted conflicts \<open>2-aaa\<close> and
  \<open>3-bbb\<close>, \<open>doc8\<close> with none, \<open>doc9\<close> with \<open>5-ccc\<close>; a server that accepts
  every deletion, and one that refuses to delete \<open>3-bbb\<close> of \<open>doc7\<close>.
\<close>

definition rows1 :: "Row list" where
  "rows1 =
     [\<lparr>row_ID = ''doc7'', row_Key = ''doc7'',
       row_Value = \<lparr>doc_ID = ''doc7'', doc_Rev = ''100001-abc'',
                    DeletedConflicts = [''2-aaa'', ''3-bbb'']\<rparr>\<rparr>,
      \<lparr>row_ID = ''doc8'', row_Key = ''doc8'',
       row_Value = \<lparr>doc_ID = ''doc8'', doc_Rev = ''100002-def'', DeletedConflicts = []\<rparr>\<rparr>,
      \<lparr>row_ID = ''doc9'', row_Key = ''doc9'',
       row_Value = \<lparr>doc_ID = ''doc9'', doc_Rev = ''200000-fed'',
                    DeletedConflicts = [''5-ccc'']\<rparr>\<rparr>]"

definition env_rows :: env where
  "env_rows =
     env_gone\<lparr>Unmarshal_QueryResponse :=
                (\<lambda>b. Inr \<lparr>TotalRows = 3, Offset = 0, Rows = rows1\<rparr>)\<rparr>"

definition env_rows_refused :: env where
  "env_rows_refused =
     env_rows\<lparr>Do := (\<lambda>log req.
              if req_url req = ''http://10.0.0.5:5984/db/doc7?rev=3-bbb''
              then Response 409 conflict_body
              else Response 200 ''{}'')\<rparr>"

text \<open>
  Servers that answer one kind of request with status 500 and behave like \<open>env_gone\<close>
  otherwise, and a server that cannot be reached.
\<close>

definition server_error_body :: string where
  \<open>server_error_body = ''{"error":"unknown_error","reason":"badarg"}''\<close>

definition env_rejecting :: "string \<Rightarrow> string \<Rightarrow> env" where
  "env_rejecting method url =
     env_gone\<lparr>Do := (\<lambda>log req.
              if req_method req = method \<and> req_url req = url
              then Response 500 server_error_body
              else Do env_gone log req)\<rparr>"

definition env_unreachable :: env where
  "env_unreachable = env_gone\<lparr>Do := (\<lambda>log req. DoError ''connection refused'')\<rparr>"

text \<open>
  Documents: one as the server stores it, one without an \<open>_id\<close>, and two at the
  threshold of the view. A server whose document has no \<open>_id\<close>.
\<close>

definition doc_stored :: doc where
  "doc_stored = [''_id'' \<mapsto> JString ''doc1'', ''_rev'' \<mapsto> JString ''3-c'',
                 ''name'' \<mapsto> JString ''x'']"

definition doc_without_id :: doc where
  "doc_without_id = [''_rev'' \<mapsto> JString ''3-c'', ''name'' \<mapsto> JString ''x'']"

definition doc_100001 :: doc where
  "doc_100001 = [''_id'' \<mapsto> JString ''doc1'', ''_rev'' \<mapsto> JString ''100001-abc'']"

definition doc_100000 :: doc where
  "doc_100000 = [''_id'' \<mapsto> JString ''doc2'', ''_rev'' \<mapsto> JString ''100000-xyz'']"

definition env_without_id :: env where
  "env_without_id = env_gone\<lparr>Unmarshal_doc := (\<lambda>b. Inr doc_without_id)\<rparr>"




text \<open>The definitions that evaluate the concrete inputs.\<close>

lemmas eval_defs = DeleteDocumentRevision_def exchange_def env_gone_def env_refused_def
  revision_request_def delete_request_def doc_url_def client1_def StatusOK_def StatusNotFound_def
  done_or_not_found_text_def not_found_body_def conflict_body_def

lemmas reset_defs = GetDocument_def GetAllRevisions_def DeleteDocument_def CreateDocument_def
  put_request_def get_request_def StatusCreated_def env_rejecting_def env_unreachable_def
  server_error_body_def Let_def

lemmas rows_defs = env_rows_def env_rows_refused_def rows1_def conflict_calls_def call_request_def

section \<open>Lemmas on addresses, masks and the loop of Hosts\<close>

lemma ip_val_snoc: "ip_val (ys @ [b]) = ip_val ys * 256 + unat b"
  by (induction ys) (simp_all add: algebra_simps)

lemma ip_val_less: "ip_val xs < 256 ^ length xs"
proof (induction xs)
  case Nil show ?case by simp
next
  case (Cons b bs)
  have "unat b < 256" using unsigned_less [of b] by simp
  then have le: "Suc (unat b) * 256 ^ length bs \<le> 256 * 256 ^ length bs"
    by (intro mult_le_mono1) simp
  have "unat b * 256 ^ length bs + ip_val bs < Suc (unat b) * 256 ^ length bs"
    using Cons by simp
  from this le have "unat b * 256 ^ length bs + ip_val bs < 256 * 256 ^ length bs"
    by (rule less_le_trans)
  then show ?case by simp
qed

lemma inc_loop_append: "k \<le> length xs \<Longrightarrow> inc_loop k (xs @ zs) = inc_loop k xs @ zs"
  by (induction k arbitrary: xs) (simp_all add: Let_def nth_append list_update_append)

lemma inc_snoc: "inc (ys @ [b]) = (if b + 1 > 0 then ys @ [b + 1] else inc ys @ [0])"
proof -
  have "b + 1 > 0 \<or> b + 1 = 0" using word_neq_0_conv by blast
  then show ?thesis
  by (auto simp add: inc_def Let_def inc_loop_append[symmetric])
qed

lemma byte_succ: "unat (b + 1 :: byte) = (if b + 1 > 0 then unat b + 1 else 0)" 
  by (simp add: add.commute unatSuc word_gt_0)

lemma byte_succ_wrap: "\<not> (b + 1 :: byte) > 0 \<Longrightarrow> unat b = 255"
proof -
  assume "\<not> (b + 1 :: byte) > 0"
  then have "b + 1 = 0" using word_neq_0_conv by blast
  then have "b = - 1" by (simp add: eq_neg_iff_add_eq_0)
  then have "b = 0xff" by simp
  then show ?thesis by simp
qed

lemma length_inc_loop: "length (inc_loop k ip) = length ip"
  by (induction k arbitrary: ip) (simp_all add: Let_def)

lemma length_inc: "length (inc ip) = length ip"
  by (simp add: inc_def length_inc_loop)

lemma ip_val_inc: "ip_val (inc ip) = (ip_val ip + 1) mod 256 ^ length ip"
proof (induction ip rule: rev_induct)
  case Nil show ?case by (simp add: inc_def)
next
  case (snoc b ys)
  let ?M = "256 ^ length ys :: nat"
  show ?case
  proof (cases "b + 1 > 0")
    case True
    have u: "unat (b + 1) = unat b + 1" using True by (simp add: byte_succ)
    have "unat (b + 1) < 256" using unsigned_less [of "b + 1"] by simp
    with u have "unat b + 1 < 256" by simp
    then have "ip_val ys * 256 + (unat b + 1) < (ip_val ys + 1) * 256" by simp
    also have "\<dots> \<le> ?M * 256"
      using ip_val_less [of ys] by (intro mult_le_mono1) simp
    finally have "ip_val ys * 256 + (unat b + 1) < 256 * ?M" by (simp add: mult.commute)
    then have "(ip_val ys * 256 + (unat b + 1)) mod (256 * ?M) = ip_val ys * 256 + (unat b + 1)"
      by simp
    with True u show ?thesis by (simp add: inc_snoc ip_val_snoc)
  next
    case False
    then have b: "unat b = 255" by (rule byte_succ_wrap)
    have "(256 * (ip_val ys + 1)) mod (256 * ?M) = 256 * ((ip_val ys + 1) mod ?M)"
      by (rule mult_mod_right [symmetric])
    then have "(ip_val ys * 256 + 255 + 1) mod (256 * ?M) = ((ip_val ys + 1) mod ?M) * 256"
      by (simp add: algebra_simps)
    with False b snoc show ?thesis by (simp add: inc_snoc ip_val_snoc)
  qed
qed

lemma div_block_eq:
  fixes a b vx vy D Q :: nat
  assumes "vx < D * Q" "vy < D * Q" "D > 0"
  shows "((a * (D * Q) + vx) div D = (b * (D * Q) + vy) div D) = (a = b \<and> vx div D = vy div D)"
proof -
  have blk: "(c * (D * Q) + v) div D = c * Q + v div D" for c v :: nat
  proof -
    have "c * (D * Q) + v = (c * Q) * D + v" by (simp add: ac_simps)
    then show ?thesis using assms(3) by (simp only: div_mult_self3)
  qed
  have x: "(a * (D * Q) + vx) div D = a * Q + vx div D" by (rule blk)
  have y: "(b * (D * Q) + vy) div D = b * Q + vy div D" by (rule blk)
  have rx: "vx div D < Q" using assms(1,3) by (simp add: less_mult_imp_div_less mult.commute)
  have ry: "vy div D < Q" using assms(2,3) by (simp add: less_mult_imp_div_less mult.commute)
  have "(a * Q + vx div D = b * Q + vy div D) = (a = b \<and> vx div D = vy div D)"
  proof
    assume e: "a * Q + vx div D = b * Q + vy div D"
    then have "(a * Q + vx div D) div Q = (b * Q + vy div D) div Q" by simp
    then have ab: "a = b" using rx ry by simp
    with e show "a = b \<and> vx div D = vy div D" by simp
  qed simp
  with x y show ?thesis by simp
qed

lemma div_block_top:
  fixes a vx M E :: nat
  assumes "vx < M" 
  shows "(a * M + vx) div (M * E) = a div E"
  using assms div_mult2_eq by simp

lemma ff_byte: "(0xff :: byte) = - 1" by simp

lemma bit_mask_byte: "bit (NOT (drop_bit k (0xff :: byte))) i = (8 - k \<le> i \<and> i < 8)"
  unfolding ff_byte by (auto simp add: bit_simps)

lemma mask_byte_agree:
  shows "(x AND NOT (drop_bit k (0xff::byte)) = y AND NOT (drop_bit k 0xff))
         = (unat x div 2 ^ (8 - k) = unat y div 2 ^ (8 - k))"
proof -
  have l: "(x AND NOT (drop_bit k (0xff::byte)) = y AND NOT (drop_bit k 0xff))
        = (\<forall>i. 8 - k \<le> i \<and> i < 8 \<longrightarrow> bit x i = bit y i)"
    by (auto simp add: bit_eq_iff [where ?'a = byte] bit_and_iff bit_mask_byte dest: bit_imp_le_length)
  have "(unat x div 2 ^ (8 - k) = unat y div 2 ^ (8 - k)) = (drop_bit (8 - k) x = drop_bit (8 - k) y)"
    by (simp only: word_unat_eq_iff unat_drop_bit_eq) (simp add: drop_bit_eq_div)
  also have "\<dots> = (\<forall>i<8. bit x (8 - k + i) = bit y (8 - k + i))"
    by (simp add: bit_eq_iff [where ?'a = byte] bit_drop_bit_eq)
  also have "\<dots> = (\<forall>i. 8 - k \<le> i \<and> i < 8 \<longrightarrow> bit x i = bit y i)"
  proof (rule iffI)
    assume a: "\<forall>i<8. bit x (8 - k + i) = bit y (8 - k + i)"
    show "\<forall>i. 8 - k \<le> i \<and> i < 8 \<longrightarrow> bit x i = bit y i"
    proof (intro allI impI)
      fix i :: nat assume b: "8 - k \<le> i \<and> i < 8"
      then have "i - (8 - k) < 8" by arith
      with a have "bit x (8 - k + (i - (8 - k))) = bit y (8 - k + (i - (8 - k)))" by blast
      with b show "bit x i = bit y i" by simp
    qed
  next
    assume a: "\<forall>i. 8 - k \<le> i \<and> i < 8 \<longrightarrow> bit x i = bit y i"
    show "\<forall>i<8. bit x (8 - k + i) = bit y (8 - k + i)"
    proof (intro allI impI)
      fix i :: nat
      show "bit x (8 - k + i) = bit y (8 - k + i)"
      proof (cases "8 - k + i < 8")
        case True then show ?thesis using a by simp
      next
        case False
        then have "\<not> bit x (8 - k + i)" "\<not> bit y (8 - k + i)"
          by (auto dest: bit_imp_le_length)
        then show ?thesis by simp
      qed
    qed
  qed
  finally show ?thesis using l by simp
qed

lemma and_ff_byte: "a AND (0xff :: byte) = a"
  unfolding ff_byte by simp

lemma length_CIDRMask_loop: "length (CIDRMask_loop l n) = l"
  by (induction l arbitrary: n) simp_all

lemma mask_byte_0: "NOT (drop_bit 0 (0xff::byte)) = 0"
  by simp

lemma CIDRMask_loop_zero: "i < l \<Longrightarrow> CIDRMask_loop l 0 ! i = 0"
  by (induction l arbitrary: i) (simp_all add: nth_Cons' mask_byte_0)

lemma agree_val:
  "length x = l \<Longrightarrow> length y = l \<Longrightarrow> n \<le> 8 * l \<Longrightarrow>
   (\<forall>i<l. x ! i AND CIDRMask_loop l n ! i = y ! i AND CIDRMask_loop l n ! i)
   = (ip_val x div 2 ^ (8 * l - n) = ip_val y div 2 ^ (8 * l - n))"
proof (induction l arbitrary: x y n)
  case 0
  then show ?case by simp
next
  case (Suc l)
  from Suc.prems obtain a xs where x: "x = a # xs" and lx: "length xs = l"
    by (cases x) auto
  from Suc.prems obtain b ys where y: "y = b # ys" and ly: "length ys = l"
    by (cases y) auto
  let ?M = "256 ^ l :: nat"
  have vx: "ip_val xs < ?M" using ip_val_less [of xs] lx by simp
  have vy: "ip_val ys < ?M" using ip_val_less [of ys] ly by simp
  have M: "?M = 2 ^ (8 * l)" by (simp add: power_mult)
  show ?case
  proof (cases "n \<ge> 8")
    case True
    let ?D = "2 ^ (8 * l - (n - 8)) :: nat"
    let ?Q = "2 ^ (n - 8) :: nat"
    have n8: "n - 8 \<le> 8 * l" using Suc.prems True by simp
    have DQ: "?M = ?D * ?Q" using n8 by (simp add: M power_add [symmetric])
    have e: "8 * Suc l - n = 8 * l - (n - 8)" using True Suc.prems by simp
    have ih: "(\<forall>i<l. xs ! i AND CIDRMask_loop l (n - 8) ! i = ys ! i AND CIDRMask_loop l (n - 8) ! i)
       = (ip_val xs div ?D = ip_val ys div ?D)"
      using Suc.IH [OF lx ly n8] .
    have "(\<forall>i<Suc l. x ! i AND CIDRMask_loop (Suc l) n ! i = y ! i AND CIDRMask_loop (Suc l) n ! i)
       = (a = b \<and> (\<forall>i<l. xs ! i AND CIDRMask_loop l (n - 8) ! i = ys ! i AND CIDRMask_loop l (n - 8) ! i))"
      using True by (simp add: All_less_Suc2 x y and_ff_byte)
    also have "\<dots> = (a = b \<and> ip_val xs div ?D = ip_val ys div ?D)"
      by (simp only: ih)
    also have "\<dots> = ((unat a * (?D * ?Q) + ip_val xs) div ?D = (unat b * (?D * ?Q) + ip_val ys) div ?D)"
      using vx vy by (subst div_block_eq) (simp_all add: DQ [symmetric] word_unat_eq_iff)
    finally show ?thesis
      by (simp only: e x y ip_val.simps lx ly DQ)
  next
    case False
    let ?E = "2 ^ (8 - n) :: nat"
    have e: "8 * Suc l - n = 8 * l + (8 - n)" using False by simp
    have "(\<forall>i<Suc l. x ! i AND CIDRMask_loop (Suc l) n ! i = y ! i AND CIDRMask_loop (Suc l) n ! i)
       = (a AND NOT (drop_bit n (0xff::byte)) = b AND NOT (drop_bit n 0xff))"
      using False by (simp add: All_less_Suc2 x y CIDRMask_loop_zero)
    also have "\<dots> = (unat a div ?E = unat b div ?E)"
      by (rule mask_byte_agree)
    also have "\<dots> = ((unat a * ?M + ip_val xs) div (?M * ?E) = (unat b * ?M + ip_val ys) div (?M * ?E))"
      using vx vy by (simp only: div_block_top)
    finally show ?thesis
      by (simp only: e x y ip_val.simps lx ly M power_add)
  qed
qed

lemma and_mask_byte_push: "x AND NOT (drop_bit k (0xff::byte)) = push_bit (8 - k) (drop_bit (8 - k) x)"
  by (auto simp add: bit_eq_iff [where ?'a = byte] bit_and_iff bit_mask_byte bit_push_bit_iff bit_drop_bit_eq
      dest: bit_imp_le_length)

lemma unat_and_mask_byte:
  "unat (x AND NOT (drop_bit k (0xff::byte))) = unat x div 2 ^ (8 - k) * 2 ^ (8 - k)"
proof -
  have "unat x div 2 ^ (8 - k) * 2 ^ (8 - k) \<le> unat x" by simp
  also have "unat x < 2 ^ 8" using unsigned_less [of x] by simp
  finally have "take_bit 8 (unat x div 2 ^ (8 - k) * 2 ^ (8 - k)) = unat x div 2 ^ (8 - k) * 2 ^ (8 - k)"
    by (simp only: take_bit_nat_eq_self_iff)
  moreover have "unat (x AND NOT (drop_bit k (0xff::byte)))
      = take_bit 8 (push_bit (8 - k) (drop_bit (8 - k) (unat x)))"
    by (simp only: and_mask_byte_push unsigned_push_bit_eq unat_drop_bit_eq) simp
  ultimately show ?thesis
    by (simp add: push_bit_eq_mult drop_bit_eq_div)
qed

lemma ip_val_zeros: "ip_val (map (\<lambda>i. 0) xs) = 0"
  by (induction xs) simp_all

lemma map_upt_Suc_shift: "map f [0..<Suc l] = f 0 # map (\<lambda>i. f (Suc i)) [0..<l]"
  by (simp only: map_upt_Suc)

lemma masked_val:
  "length x = l \<Longrightarrow> n \<le> 8 * l \<Longrightarrow>
   ip_val (map (\<lambda>i. x ! i AND CIDRMask_loop l n ! i) [0..<l])
   = ip_val x div 2 ^ (8 * l - n) * 2 ^ (8 * l - n)"
proof (induction l arbitrary: x n)
  case 0
  then show ?case by simp
next
  case (Suc l)
  from Suc.prems obtain a xs where x: "x = a # xs" and lx: "length xs = l"
    by (cases x) auto
  let ?M = "256 ^ l :: nat"
  have vx: "ip_val xs < ?M" using ip_val_less [of xs] lx by simp
  have M: "?M = 2 ^ (8 * l)" by (simp add: power_mult)
  show ?case
  proof (cases "n \<ge> 8")
    case True
    let ?D = "2 ^ (8 * l - (n - 8)) :: nat"
    let ?Q = "2 ^ (n - 8) :: nat"
    have n8: "n - 8 \<le> 8 * l" using Suc.prems True by simp
    have DQ: "?M = ?D * ?Q" using n8 by (simp add: M power_add [symmetric])
    have e: "8 * Suc l - n = 8 * l - (n - 8)" using True Suc.prems by simp
    have ih: "ip_val (map (\<lambda>i. xs ! i AND CIDRMask_loop l (n - 8) ! i) [0..<l]) = ip_val xs div ?D * ?D"
      using Suc.IH [OF lx n8] .
    have "(unat a * (?D * ?Q) + ip_val xs) div ?D = unat a * ?Q + ip_val xs div ?D"
    proof -
      have "unat a * (?D * ?Q) + ip_val xs = (unat a * ?Q) * ?D + ip_val xs" by (simp add: ac_simps)
      then show ?thesis by (simp only: div_mult_self3) simp
    qed
    then have key: "(unat a * ?M + ip_val xs) div ?D * ?D = unat a * ?M + ip_val xs div ?D * ?D"
      by (simp add: DQ algebra_simps)
    have lhs: "ip_val (map (\<lambda>i. x ! i AND CIDRMask_loop (Suc l) n ! i) [0..<Suc l])
        = unat a * ?M + ip_val (map (\<lambda>i. xs ! i AND CIDRMask_loop l (n - 8) ! i) [0..<l])"
      using True by (simp add: map_upt_Suc_shift x lx and_ff_byte del: upt_Suc)
    have rhs: "ip_val x div 2 ^ (8 * Suc l - n) * 2 ^ (8 * Suc l - n)
        = (unat a * ?M + ip_val xs) div ?D * ?D"
      by (simp only: e x ip_val.simps lx)
    show ?thesis by (simp only: lhs rhs key ih)
  next
    case False
    let ?E = "2 ^ (8 - n) :: nat"
    have e: "8 * Suc l - n = 8 * l + (8 - n)" using False by simp
    have z: "map (\<lambda>i. xs ! i AND CIDRMask_loop l 0 ! i) [0..<l] = map (\<lambda>i. 0) [0..<l]"
      by (simp add: CIDRMask_loop_zero)
    have "(unat a * ?M + ip_val xs) div (?M * ?E) = unat a div ?E"
      using vx by (rule div_block_top)
    then have key: "(unat a * ?M + ip_val xs) div (?M * ?E) * (?M * ?E) = unat a div ?E * ?E * ?M"
      by simp
    have lhs: "ip_val (map (\<lambda>i. x ! i AND CIDRMask_loop (Suc l) n ! i) [0..<Suc l])
        = unat a div ?E * ?E * ?M"
      using False by (simp add: map_upt_Suc_shift x lx z ip_val_zeros unat_and_mask_byte del: upt_Suc)
    have rhs: "ip_val x div 2 ^ (8 * Suc l - n) * 2 ^ (8 * Suc l - n)
        = (unat a * ?M + ip_val xs) div (?M * ?E) * (?M * ?E)"
      by (simp only: e x ip_val.simps lx M power_add)
    show ?thesis by (simp only: lhs rhs key)
  qed
qed

lemma To4_len4: "length ip = 4 \<Longrightarrow> To4 ip = ip"
  by (simp add: To4_def)

lemma Contains_v4:
  assumes "length nn = 4" "length m = 4" "length ip = 4"
  shows "Contains \<lparr>net_IP = nn, net_Mask = m\<rparr> ip
         = (\<forall>i<4. (nn ! i) AND (m ! i) = (ip ! i) AND (m ! i))"
proof -
  have nn: "nn \<noteq> []" and ip: "ip \<noteq> []" using assms by auto
  show ?thesis
    using assms nn ip
    by (simp add: Contains_def networkNumberAndMask_def To4_len4 Let_def list_all_iff Ball_def)
qed

lemma unat_of_nat_byte: "unat (of_nat v :: byte) = v mod 256"
  by (simp add: unat_of_nat)

lemma length_bytes_of: "length (bytes_of l v) = l"
  by (induction l) simp_all

lemma ip_val_bytes_of: "ip_val (bytes_of l v) = v mod 256 ^ l"
proof (induction l)
  case 0 show ?case by simp
next
  case (Suc l)
  have "v mod (256 ^ l * 256) = 256 ^ l * (v div 256 ^ l mod 256) + v mod 256 ^ l"
    by (rule mod_mult2_eq)
  with Suc show ?case
    by (simp add: length_bytes_of unat_of_nat_byte mult.commute)
qed

lemma addr4_bytes_of: "addr4 v = bytes_of (Suc (Suc (Suc (Suc 0)))) v"
  by (simp add: addr4_def)

lemma length_addr4: "length (addr4 v) = 4"
  by (simp add: addr4_def)

lemma ip_val_addr4: "ip_val (addr4 v) = v mod 2 ^ 32"
  by (simp only: addr4_bytes_of ip_val_bytes_of) simp

lemma ip_val_inj: "length x = length y \<Longrightarrow> ip_val x = ip_val y \<Longrightarrow> x = y"
proof (induction x y rule: list_induct2)
  case Nil show ?case by simp
next
  case (Cons a xs b ys)
  let ?M = "256 ^ length ys :: nat"
  have vx: "ip_val xs < ?M" using ip_val_less [of xs] Cons.hyps by simp
  have vy: "ip_val ys < ?M" using ip_val_less [of ys] by simp
  from Cons.prems Cons.hyps have e: "unat a * ?M + ip_val xs = unat b * ?M + ip_val ys" by simp
  then have "(unat a * ?M + ip_val xs) div ?M = (unat b * ?M + ip_val ys) div ?M" by simp
  with vx vy have ab: "unat a = unat b" by simp
  with e have "ip_val xs = ip_val ys" by simp
  with ab Cons.IH show ?case by (simp add: word_unat_eq_iff)
qed

lemma addr4_ip_val: "length ip = 4 \<Longrightarrow> addr4 (ip_val ip) = ip"
proof -
  assume l: "length ip = 4"
  have "ip_val ip < 2 ^ 32" using ip_val_less [of ip] l by simp
  then have "ip_val (addr4 (ip_val ip)) = ip_val ip" by (simp add: ip_val_addr4)
  with l show ?thesis by (intro ip_val_inj) (simp_all add: length_addr4)
qed

lemma Hosts_loop_block:
  fixes N q e :: nat
  assumes C: "\<And>ip. length ip = 4 \<Longrightarrow> Contains net ip = (ip_val ip div N = q)"
    and N: "N = 2 ^ e" and e: "e \<le> 31" and q: "q < 2 ^ (32 - e)"
  shows "k \<le> N \<Longrightarrow> length ip = 4 \<Longrightarrow> ip_val ip = (q * N + k) mod 2 ^ 32 \<Longrightarrow>
         Hosts_loop str net ip ips = Some (ips @ map (\<lambda>j. str (addr4 (q * N + j))) [k..<N])"
proof (induction "N - k" arbitrary: k ip ips)
  case 0
  then have k: "k = N" by simp
  have Npos: "N > 0" using N by simp
  have top: "(q + 1) * N \<le> 2 ^ 32"
  proof -
    have "q + 1 \<le> 2 ^ (32 - e)" using q by simp
    then have "(q + 1) * N \<le> 2 ^ (32 - e) * 2 ^ e" unfolding N by (rule mult_le_mono1)
    also have "\<dots> = 2 ^ 32" using e by (simp add: power_add [symmetric])
    finally show ?thesis .
  qed
  have "ip_val ip div N \<noteq> q"
  proof (cases "(q + 1) * N < 2 ^ 32")
    case True
    then have "ip_val ip = (q + 1) * N" using 0 k by (simp add: algebra_simps)
    then show ?thesis using Npos by simp
  next
    case False
    with top have eq: "(q + 1) * N = 2 ^ 32" by simp
    then have "ip_val ip = 0" using 0 k by (simp add: algebra_simps)
    moreover have "q \<noteq> 0"
    proof
      assume "q = 0"
      with eq have "N = 2 ^ 32" by simp
      moreover have "N \<le> 2 ^ 31" unfolding N using e by (intro power_increasing) simp_all
      ultimately show False by simp
    qed
    ultimately show ?thesis by simp
  qed
  then have "\<not> Contains net ip" using C [OF "0.prems"(2)] by simp
  then show ?case using k by (subst Hosts_loop.simps) simp
next
  case (Suc d)
  then have k: "k < N" by simp
  have "q + 1 \<le> 2 ^ (32 - e)" using q by simp
  then have "(q + 1) * N \<le> 2 ^ (32 - e) * 2 ^ e" unfolding N by (rule mult_le_mono1)
  also have "\<dots> = 2 ^ 32" using e by (simp add: power_add [symmetric])
  finally have top: "q * N + N \<le> 2 ^ 32" by simp
  with k have lt: "q * N + k < 2 ^ 32" by simp
  then have v: "ip_val ip = q * N + k" using Suc.prems by simp
  then have "ip_val ip div N = q" using k by simp
  then have c: "Contains net ip" using C [OF Suc.prems(2)] by simp
  have ip: "ip = addr4 (q * N + k)" using addr4_ip_val [OF Suc.prems(2)] v by simp
  have "Hosts_loop str net (inc ip) (ips @ [str ip])
      = Some ((ips @ [str ip]) @ map (\<lambda>j. str (addr4 (q * N + j))) [Suc k..<N])"
  proof (rule Suc.hyps(1))
    show "d = N - Suc k" using Suc.hyps(2) by simp
    show "Suc k \<le> N" using k by simp
    show "length (inc ip) = 4" using Suc.prems(2) by (simp add: length_inc)
    show "ip_val (inc ip) = (q * N + Suc k) mod 2 ^ 32"
      using Suc.prems(2) v by (simp add: ip_val_inc)
  qed
  then show ?case using c k ip by (subst Hosts_loop.simps) (simp add: upt_conv_Cons)
qed

lemma CIDRMask_v4: "n \<le> 32 \<Longrightarrow> CIDRMask (int n) 32 = CIDRMask_loop 4 n"
  by (simp add: CIDRMask_def)

lemma map_upt_4: "map f [0..<4] = [f 0, f (Suc 0), f (Suc (Suc 0)), f (Suc (Suc (Suc 0)))]"
proof -
  have "[0..<4] = [0, Suc 0, Suc (Suc 0), Suc (Suc (Suc 0))]"
    by (simp add: upt_rec)
  then show ?thesis by simp
qed

lemma ip_Mask_v4:
  assumes "length m = 4"
  shows "ip_Mask (v4InV6Prefix @ [a, b, c, d]) m = map (\<lambda>i. [a, b, c, d] ! i AND m ! i) [0..<4]"
  using assms by (simp add: ip_Mask_def v4InV6Prefix_def Let_def map_upt_4)

lemma v4block_eq:
  assumes "n \<le> 32"
  shows "v4block a b c d n =
    (v4InV6Prefix @ [a, b, c, d],
     \<lparr>net_IP = map (\<lambda>i. [a, b, c, d] ! i AND CIDRMask_loop 4 n ! i) [0..<4],
      net_Mask = CIDRMask_loop 4 n\<rparr>)"
  using assms by (simp add: v4block_def CIDRMask_v4 Let_def ip_Mask_v4 length_CIDRMask_loop)

lemma Hosts_loop_v4block:
  assumes n: "1 \<le> n" "n \<le> 32"
  shows "Hosts_loop str (snd (v4block a b c d n))
           (ip_Mask (fst (v4block a b c d n)) (net_Mask (snd (v4block a b c d n)))) []
         = Some (map (\<lambda>j. str (addr4 (block_first a b c d n + j))) [0..<2 ^ (32 - n)])"
proof -
  let ?m = "CIDRMask_loop 4 n"
  let ?x = "[a, b, c, d]"
  let ?nn = "map (\<lambda>i. ?x ! i AND ?m ! i) [0..<4]"
  let ?net = "\<lparr>net_IP = ?nn, net_Mask = ?m\<rparr>"
  let ?N = "2 ^ (32 - n) :: nat"
  let ?q = "ip_val ?x div ?N"
  have lm: "length ?m = 4" by (rule length_CIDRMask_loop)
  have ln: "length ?nn = 4" by simp
  have n8: "n \<le> 8 * 4" using n by simp
  have e32: "8 * 4 - n = 32 - n" by simp
  have vnn: "ip_val ?nn = ?q * ?N"
    using masked_val [of ?x 4 n] n8 by (simp only: e32) simp
  have C: "Contains ?net ip = (ip_val ip div ?N = ?q)" if l: "length ip = 4" for ip
  proof -
    have "Contains ?net ip = (\<forall>i<4. ?nn ! i AND ?m ! i = ip ! i AND ?m ! i)"
      using ln lm l by (rule Contains_v4)
    also have "\<dots> = (ip_val ?nn div ?N = ip_val ip div ?N)"
      using agree_val [OF ln l n8] by (simp only: e32)
    also have "\<dots> = (ip_val ip div ?N = ?q)"
      by (simp only: vnn) auto
    finally show ?thesis .
  qed
  have q: "?q < 2 ^ (32 - (32 - n))"
  proof -
    have "ip_val ?x < 2 ^ 32" using ip_val_less [of ?x] by simp
    also have "(2::nat) ^ 32 = 2 ^ (32 - (32 - n)) * 2 ^ (32 - n)"
      using n by (simp add: power_add [symmetric])
    finally show ?thesis by (rule less_mult_imp_div_less)
  qed
  have e: "32 - n \<le> 31" using n by simp
  have "ip_val ?nn = (?q * ?N + 0) mod 2 ^ 32"
    using ip_val_less [of ?nn] by (simp add: vnn)
  then have "Hosts_loop str ?net ?nn [] = Some ([] @ map (\<lambda>j. str (addr4 (?q * ?N + j))) [0..<?N])"
    using C e q ln by (intro Hosts_loop_block [where e = "32 - n"]) simp_all
  then show ?thesis
    using n by (simp add: v4block_eq ip_Mask_v4 lm block_first_def)
qed

section \<open>Hosts on IPv4 blocks\<close>

lemma Hosts_loop_zero_mask_aux:
  assumes "Hosts_loop str0 n0 ip0 ips0 = Some r0"
  shows "\<not> (net_Mask n0 = [0, 0, 0, 0] \<and> length (net_IP n0) = 4 \<and> length ip0 = 4)"
proof (rule Hosts_loop.raw_induct
    [where P = "\<lambda>str n ip ips r. \<not> (net_Mask n = [0, 0, 0, 0] \<and> length (net_IP n) = 4 \<and> length ip = 4)",
     OF _ assms])
  fix f :: "(IP \<Rightarrow> string) \<Rightarrow> IPNet \<Rightarrow> IP \<Rightarrow> string list \<Rightarrow> string list option"
  fix str n ip ips r
  assume IH: "\<And>str n ip ips r. f str n ip ips = Some r \<Longrightarrow>
      \<not> (net_Mask n = [0, 0, 0, 0] \<and> length (net_IP n) = 4 \<and> length ip = 4)"
    and eq: "(if Contains n ip then f str n (inc ip) (ips @ [str ip]) else Some ips) = Some r"
  show "\<not> (net_Mask n = [0, 0, 0, 0] \<and> length (net_IP n) = 4 \<and> length ip = 4)"
  proof
    assume a: "net_Mask n = [0, 0, 0, 0] \<and> length (net_IP n) = 4 \<and> length ip = 4"
    have n: "n = \<lparr>net_IP = net_IP n, net_Mask = [0, 0, 0, 0]\<rparr>" using a by simp
    have four: "(4::nat) = Suc (Suc (Suc (Suc 0)))" by simp
    have "\<forall>i<4. net_IP n ! i AND [0, 0, 0, 0] ! i = ip ! i AND [0, 0, 0, 0] ! i"
      by (simp only: four All_less_Suc) simp
    then have "Contains \<lparr>net_IP = net_IP n, net_Mask = [0, 0, 0, 0]\<rparr> ip"
      using a by (simp add: Contains_v4)
    then have "Contains n ip" using n by simp
    with eq have "f str n (inc ip) (ips @ [str ip]) = Some r" by simp
    from IH [OF this] a show False by (simp add: length_inc)
  qed
qed

lemma Hosts_loop_zero_mask:
  assumes "length nn = 4" "length ip = 4"
  shows "Hosts_loop str \<lparr>net_IP = nn, net_Mask = [0, 0, 0, 0]\<rparr> ip ips = None"
proof (cases "Hosts_loop str \<lparr>net_IP = nn, net_Mask = [0, 0, 0, 0]\<rparr> ip ips")
  case (Some r)
  then show ?thesis using Hosts_loop_zero_mask_aux [OF Some] assms by simp
qed simp

lemma CIDRMask_loop_4_0: "CIDRMask_loop 4 0 = [0, 0, 0, 0]"
proof -
  have "length (CIDRMask_loop 4 0) = length [0, 0, 0, 0 :: byte]" by (simp add: length_CIDRMask_loop)
  moreover have "\<forall>i<4. CIDRMask_loop 4 0 ! i = [0, 0, 0, 0 :: byte] ! i"
    by (simp add: CIDRMask_loop_zero nth_Cons' )
  ultimately show ?thesis by (simp add: list_eq_iff_nth_eq length_CIDRMask_loop)
qed

lemma Hosts_slash0:
  assumes "ParseCIDR lib cidr = Inr (v4block a b c d 0)"
  shows "Hosts lib cidr = None"
proof -
  obtain ip ipnet where v: "v4block a b c d 0 = (ip, ipnet)" by (cases "v4block a b c d 0")
  have "Hosts_loop (IP_String lib) (snd (v4block a b c d 0))
          (ip_Mask (fst (v4block a b c d 0)) (net_Mask (snd (v4block a b c d 0)))) [] = None"
    by (simp add: v4block_eq ip_Mask_v4 length_CIDRMask_loop CIDRMask_loop_4_0 Hosts_loop_zero_mask)
  then show ?thesis using assms v by (simp add: Hosts_def)
qed

lemma Hosts_v4:
  assumes p: "ParseCIDR lib cidr = Inr (v4block a b c d n)" and n: "1 \<le> n" "n \<le> 32"
  shows "Hosts lib cidr =
    (case slice (map (\<lambda>j. IP_String lib (addr4 (block_first a b c d n + j))) [0..<2 ^ (32 - n)])
            1 (int (2 ^ (32 - n)) - 1) of
       Returns hs \<Rightarrow> Some (Returns (Inr hs))
     | Panics msg \<Rightarrow> Some (Panics msg)
     | Fatal msg \<Rightarrow> Some (Fatal msg))"
proof -
  obtain ip ipnet where v: "v4block a b c d n = (ip, ipnet)" by (cases "v4block a b c d n")
  have "Hosts_loop (IP_String lib) ipnet (ip_Mask ip (net_Mask ipnet)) []
      = Some (map (\<lambda>j. IP_String lib (addr4 (block_first a b c d n + j))) [0..<2 ^ (32 - n)])"
    using Hosts_loop_v4block [OF n, of "IP_String lib" a b c d] v by simp
  then show ?thesis using p v by (simp add: Hosts_def)
qed

lemma Hosts_hosts:
  assumes p: "ParseCIDR lib cidr = Inr (v4block a b c d n)" and n: "1 \<le> n" "n \<le> 30"
  shows "Hosts lib cidr =
     Some (Returns (Inr (map (\<lambda>j. IP_String lib (addr4 (block_first a b c d n + j)))
                           [1..<2 ^ (32 - n) - 1])))"
proof -
  let ?N = "2 ^ (32 - n) :: nat"
  have "(2::nat) ^ 2 \<le> ?N" using n by (intro power_increasing) simp_all
  then have N: "4 \<le> ?N" by simp
  have n32: "n \<le> 32" using n by simp
  have "drop 1 [0..<?N] = [1..<?N]" by (simp only: drop_upt) simp
  moreover have "take (?N - 2) [1..<?N] = [1..<1 + (?N - 2)]"
    using N by (intro take_upt) arith
  moreover have "1 + (?N - 2) = ?N - 1" using N by arith
  ultimately have "take (?N - 2) (drop 1 [0..<?N]) = [1..<?N - 1]"
    by (simp only:)
  then have "take (?N - 2) (drop 1 (map f [0..<?N])) = map f [1..<?N - 1]" for f :: "nat \<Rightarrow> string"
    by (simp only: drop_map take_map)
  moreover have "nat (int ?N - 1 - 1) = ?N - 2" by arith
  ultimately show ?thesis
    using N by (simp add: Hosts_v4 [OF p n(1) n32] slice_def del: upt_Suc)
qed

lemma Hosts_slash31:
  assumes p: "ParseCIDR lib cidr = Inr (v4block a b c d 31)"
  shows "Hosts lib cidr = Some (Returns (Inr []))"
  by (simp add: Hosts_v4 [OF p] slice_def)

lemma Hosts_slash32:
  assumes p: "ParseCIDR lib cidr = Inr (v4block a b c d 32)"
  shows "Hosts lib cidr = Some (Panics ''runtime error: slice bounds out of range'')"
  by (simp add: Hosts_v4 [OF p] slice_def)

section \<open>Scans\<close>

lemma scan_step_measure:
  "scan_step f p c c' \<Longrightarrow> scan_measure f p c' = scan_measure f p c"
  by (induction rule: scan_step.induct)
     (auto simp add: scan_measure_def multiset_eq_iff)

lemma scan_steps_measure:
  "(scan_step f p)\<^sup>*\<^sup>* c c' \<Longrightarrow> scan_measure f p c' = scan_measure f p c"
  by (induction rule: rtranclp_induct) (simp_all add: scan_step_measure)

lemma scan_complete_mset:
  assumes "(scan_step f p)\<^sup>*\<^sup>* (ips, {#}, []) ([], {#}, foundIPs)"
  shows "mset foundIPs = mset (filter (\<lambda>ip. f ip p) ips)"
  using scan_steps_measure [OF assms] by (simp add: scan_measure_def)

lemma scan_go_all: "(scan_step f p)\<^sup>*\<^sup>* (ips, R, F) ([], mset ips + R, F)"
proof (induction ips arbitrary: R)
  case Nil show ?case by simp
next
  case (Cons ip ips)
  have "scan_step f p (ip # ips, R, F) (ips, add_mset ip R, F)" by (rule scan_step.go)
  also have "(scan_step f p)\<^sup>*\<^sup>* (ips, add_mset ip R, F) ([], mset ips + add_mset ip R, F)"
    by (rule Cons.IH)
  finally show ?case by simp
qed

lemma scan_finish_misses:
  "(scan_step f p)\<^sup>*\<^sup>* ([], R + X, F) ([], filter_mset (\<lambda>ip. f ip p) R + X, F)"
proof (induction R arbitrary: X)
  case empty show ?case by simp
next
  case (add x R)
  show ?case
  proof (cases "f x p")
    case True
    have "(scan_step f p)\<^sup>*\<^sup>* ([], R + add_mset x X, F) ([], filter_mset (\<lambda>ip. f ip p) R + add_mset x X, F)"
      by (rule add.IH)
    with True show ?thesis by simp
  next
    case False
    have "x \<in># add_mset x R + X" by simp
    moreover note False
    ultimately have "scan_step f p ([], add_mset x R + X, F) ([], add_mset x R + X - {#x#}, F)"
      by (rule scan_step.not_found)
    then have "scan_step f p ([], add_mset x R + X, F) ([], R + X, F)" by simp
    also have "(scan_step f p)\<^sup>*\<^sup>* ([], R + X, F) ([], filter_mset (\<lambda>ip. f ip p) R + X, F)"
      by (rule add.IH)
    finally show ?thesis using False by simp
  qed
qed

lemma scan_finish_hits:
  "\<forall>ip\<in>set xs. f ip p \<Longrightarrow> (scan_step f p)\<^sup>*\<^sup>* ([], mset xs + X, F) ([], X, F @ xs)"
proof (induction xs arbitrary: F)
  case Nil show ?case by simp
next
  case (Cons x xs)
  have "x \<in># mset (x # xs) + X" by simp
  moreover have "f x p" using Cons.prems by simp
  ultimately have "scan_step f p ([], mset (x # xs) + X, F) ([], mset (x # xs) + X - {#x#}, F @ [x])"
    by (rule scan_step.found)
  then have "scan_step f p ([], mset (x # xs) + X, F) ([], mset xs + X, F @ [x])" by simp
  also have "(scan_step f p)\<^sup>*\<^sup>* ([], mset xs + X, F @ [x]) ([], X, (F @ [x]) @ xs)"
    using Cons.prems by (intro Cons.IH) simp
  finally show ?case by simp
qed

lemma scan_any_order:
  assumes "mset foundIPs = mset (filter (\<lambda>ip. f ip p) ips)"
  shows "(scan_step f p)\<^sup>*\<^sup>* (ips, {#}, []) ([], {#}, foundIPs)"
proof -
  have "set foundIPs = set (filter (\<lambda>ip. f ip p) ips)" using assms by (rule mset_eq_setD)
  then have hits: "\<forall>ip\<in>set foundIPs. f ip p" by auto
  have "(scan_step f p)\<^sup>*\<^sup>* (ips, {#}, []) ([], mset ips + {#}, [])" by (rule scan_go_all)
  also have "(scan_step f p)\<^sup>*\<^sup>* ([], mset ips + {#}, []) ([], filter_mset (\<lambda>ip. f ip p) (mset ips) + {#}, [])"
    by (rule scan_finish_misses)
  also have "filter_mset (\<lambda>ip. f ip p) (mset ips) + {#} = mset foundIPs + {#}" using assms by simp
  also have "(scan_step f p)\<^sup>*\<^sup>* ([], mset foundIPs + {#}, []) ([], {#}, [] @ foundIPs)"
    using hits by (rule scan_finish_hits)
  finally show ?thesis by simp
qed

lemma ScanNetwork_returns_filtered:
  assumes "Hosts lib cidr = Some (Returns (Inr ips))"
  shows "ScanNetwork lib cidr port f out
         = (\<exists>foundIPs. out = Returns foundIPs \<and> mset foundIPs = mset (filter (\<lambda>ip. f ip port) ips))"
proof
  assume "ScanNetwork lib cidr port f out"
  then show "\<exists>foundIPs. out = Returns foundIPs \<and> mset foundIPs = mset (filter (\<lambda>ip. f ip port) ips)"
    using assms by (cases rule: ScanNetwork.cases) (auto dest: scan_complete_mset)
next
  assume "\<exists>foundIPs. out = Returns foundIPs \<and> mset foundIPs = mset (filter (\<lambda>ip. f ip port) ips)"
  then obtain foundIPs where out: "out = Returns foundIPs"
    and m: "mset foundIPs = mset (filter (\<lambda>ip. f ip port) ips)" by blast
  from m have "(scan_step f port)\<^sup>*\<^sup>* (ips, {#}, []) ([], {#}, foundIPs)" by (rule scan_any_order)
  with assms show "ScanNetwork lib cidr port f out" unfolding out by (rule ScanNetwork.scanned)
qed

lemma lib_v4_slash32: "ParseCIDR lib_v4 ''10.0.0.1/32'' = Inr (v4block 10 0 0 1 32)"
  by (simp add: lib_v4_def ParseCIDR_v4_def parse_octet_def parse_decimal_def digit_val_def)

lemma lib_v4_slash0: "ParseCIDR lib_v4 ''0.0.0.0/0'' = Inr (v4block 0 0 0 0 0)"
  by (simp add: lib_v4_def ParseCIDR_v4_def parse_octet_def parse_decimal_def digit_val_def)

lemma lib_v4_slash30: "ParseCIDR lib_v4 ''192.168.1.0/30'' = Inr (v4block 192 168 1 0 30)"
  by (simp add: lib_v4_def ParseCIDR_v4_def parse_octet_def parse_decimal_def digit_val_def)

lemma lib_v4_slash31: "ParseCIDR lib_v4 ''192.168.1.0/31'' = Inr (v4block 192 168 1 0 31)"
  by (simp add: lib_v4_def ParseCIDR_v4_def parse_octet_def parse_decimal_def digit_val_def)

lemma Hosts_slash30_example:
  "Hosts lib_v4 ''192.168.1.0/30'' = Some (Returns (Inr [''192.168.1.1'', ''192.168.1.2'']))"
proof -
  have h: "Hosts lib_v4 ''192.168.1.0/30'' =
      Some (Returns (Inr (map (\<lambda>j. IP_String lib_v4 (addr4 (block_first 192 168 1 0 30 + j)))
                            [1..<2 ^ (32 - 30) - 1])))"
    by (rule Hosts_hosts [OF lib_v4_slash30]) simp_all
  have u: "[1..<2 ^ (32 - 30) - 1] = [1, 2 :: nat]" by (simp add: upt_rec)
  have b: "block_first 192 168 1 0 30 = 3232235776"
    by (simp add: block_first_def)
  have str: "IP_String lib_v4 = IP_String_v4" by (simp add: lib_v4_def)
  show ?thesis
    unfolding h u b str
    by (simp add: IP_String_v4_def addr4_def dec_byte_def digit_char_def)
qed

lemma ScanNetwork_slash30_example:
  "ScanNetwork lib_v4 ''192.168.1.0/30'' ''5984'' (\<lambda>ip port. ip = ''192.168.1.1'') out
   = (out = Returns [''192.168.1.1''])"
  by (simp add: ScanNetwork_returns_filtered [OF Hosts_slash30_example])

lemma Hosts_slash31_example:
  "Hosts lib_v4 ''192.168.1.0/31'' = Some (Returns (Inr []))"
  using lib_v4_slash31 by (rule Hosts_slash31)

lemma Hosts_length:
  assumes "ParseCIDR lib cidr = Inr (v4block a b c d n)" "1 \<le> n" "n \<le> 30"
  shows "\<exists>hosts. Hosts lib cidr = Some (Returns (Inr hosts)) \<and> length hosts = 2 ^ (32 - n) - 2"
  by (simp add: Hosts_hosts [OF assms])

section \<open>The claims on host enumeration and scanning\<close>

text \<open>
  C1. For every IPv4 block with prefix length at most 30, \<open>Hosts\<close> is claimed to return
  the \<open>2^(32 - prefix) - 2\<close> addresses between the network and the broadcast address,
  in ascending order. Lemma \<open>Hosts_hosts\<close> proves exactly this for prefix lengths 1 to
  30. For prefix length 0 the code does not return: every address is in the block, and
  \<open>inc\<close> wraps from 255.255.255.255 to 0.0.0.0, so the loop never ends.
\<close>

theorem Hosts_slash0_never_returns: "Hosts lib_v4 ''0.0.0.0/0'' = None"
  using lib_v4_slash0 by (rule Hosts_slash0)

text \<open>
  C2. For prefix lengths 31 and 32 \<open>Hosts\<close> is claimed to return the empty sequence
  without failing. Lemma \<open>Hosts_slash31\<close> proves it for every /31 block. For a /32
  block the loop collects one address and the slice expression \<open>ips[1 : len(ips)-1]\<close>
  is \<open>ips[1:0]\<close>, a run-time panic (lemma \<open>Hosts_slash32\<close> for every /32 block).
\<close>

theorem Hosts_slash32_panics:
  "Hosts lib_v4 ''10.0.0.1/32'' = Some (Panics ''runtime error: slice bounds out of range'')"
  using lib_v4_slash32 by (rule Hosts_slash32)

text \<open>
  C3. For every block that parses, \<open>ScanNetwork\<close> is claimed to return exactly the hosts
  of \<open>Hosts\<close> that the oracle reports reachable. Lemma
  \<open>ScanNetwork_returns_filtered\<close> proves that whenever \<open>Hosts\<close> returns its list,
  the results of the completed scans are exactly the orderings of the reachable hosts,
  none lost and none duplicated. But \<open>ScanNetwork\<close> calls \<open>Hosts\<close> first, so on a
  /32 block, which parses, its only outcome is the panic of \<open>Hosts\<close>.
\<close>

theorem ScanNetwork_slash32_panics:
  "ScanNetwork lib_v4 ''10.0.0.1/32'' couchDBPort isCouchDBRunning out
   = (out = Panics ''runtime error: slice bounds out of range'')"
  by (auto simp add: ScanNetwork.simps Hosts_slash32 [OF lib_v4_slash32])

section \<open>Deleting revisions and documents\<close>

lemma snd_DeleteDocumentRevision:
  "snd (DeleteDocumentRevision c e docID r log) = log @ [revision_request c docID r]"
  by (simp add: DeleteDocumentRevision_def exchange_def split: http_result.splits)







section \<open>Resolving conflicts\<close>

lemma delete_each_append:
  "delete_each c e (xs @ ys) log =
     (case delete_each c e xs log of
        (Some err, l) \<Rightarrow> (Some err, l)
      | (None, l) \<Rightarrow> delete_each c e ys l)"
  by (induction xs arbitrary: log) (auto split: prod.splits sum.splits option.splits)

lemma delete_conflicts_eq:
  "delete_conflicts c e d revs log = delete_each c e (map (\<lambda>conflictRev. (doc_ID d, conflictRev)) revs) log"
  by (induction revs arbitrary: log) (auto split: prod.splits sum.splits)

lemma handle_rows_eq: "handle_rows c e rows log = delete_each c e (conflict_calls rows) log"
proof (induction rows arbitrary: log)
  case Nil
  show ?case by (simp add: conflict_calls_def)
next
  case (Cons row rows)
  have cc: "conflict_calls (row # rows)
      = map (\<lambda>conflictRev. (doc_ID (row_Value row), conflictRev)) (DeletedConflicts (row_Value row))
        @ conflict_calls rows"
    by (simp add: conflict_calls_def)
  show ?case
  proof (cases "DeletedConflicts (row_Value row) = []")
    case True
    then show ?thesis using Cons.IH by (simp add: cc)
  next
    case False
    then show ?thesis
      using Cons.IH
      by (simp add: cc delete_each_append delete_conflicts_eq Let_def split: prod.splits option.splits)
  qed
qed

lemma delete_each_all_ok:
  "(\<forall>j<length calls. \<not> isl (fst (DeleteDocumentRevision c e (fst (calls ! j)) (snd (calls ! j))
        (log @ map (call_request c) (take j calls))))) \<Longrightarrow>
   delete_each c e calls log = (None, log @ map (call_request c) calls)"
proof (induction calls arbitrary: log)
  case Nil
  show ?case by simp
next
  case (Cons call calls)
  obtain res l where d: "DeleteDocumentRevision c e (fst call) (snd call) log = (res, l)"
    by (cases "DeleteDocumentRevision c e (fst call) (snd call) log")
  have l: "l = log @ [call_request c call]"
    using snd_DeleteDocumentRevision [of c e "fst call" "snd call" log] d
    by (simp add: call_request_def)
  have t: "\<not> isl res" using Cons.prems [rule_format, of 0] d by simp
  have "\<forall>j<length calls. \<not> isl (fst (DeleteDocumentRevision c e (fst (calls ! j)) (snd (calls ! j))
        (l @ map (call_request c) (take j calls))))"
  proof (intro allI impI)
    fix j assume "j < length calls"
    then show "\<not> isl (fst (DeleteDocumentRevision c e (fst (calls ! j)) (snd (calls ! j))
        (l @ map (call_request c) (take j calls))))"
      using Cons.prems [rule_format, of "Suc j"] l by simp
  qed
  then have "delete_each c e calls l = (None, l @ map (call_request c) calls)"
    by (rule Cons.IH)
  then show ?case using d t l by (auto split: sum.splits)
qed

lemma delete_each_first_failure:
  "k < length calls \<Longrightarrow>
   (\<forall>j<k. \<not> isl (fst (DeleteDocumentRevision c e (fst (calls ! j)) (snd (calls ! j))
        (log @ map (call_request c) (take j calls))))) \<Longrightarrow>
   fst (DeleteDocumentRevision c e (fst (calls ! k)) (snd (calls ! k))
        (log @ map (call_request c) (take k calls))) = Inl err \<Longrightarrow>
   delete_each c e calls log
     = (Some (''failed to delete conflict for document '' @ fst (calls ! k) @ '': '' @ err),
        log @ map (call_request c) (take (Suc k) calls))"
proof (induction calls arbitrary: log k)
  case Nil
  then show ?case by simp
next
  case (Cons call calls)
  obtain res l where d: "DeleteDocumentRevision c e (fst call) (snd call) log = (res, l)"
    by (cases "DeleteDocumentRevision c e (fst call) (snd call) log")
  have l: "l = log @ [call_request c call]"
    using snd_DeleteDocumentRevision [of c e "fst call" "snd call" log] d
    by (simp add: call_request_def)
  show ?case
  proof (cases k)
    case 0
    then show ?thesis using Cons.prems d l by simp
  next
    case (Suc k')
    have t: "\<not> isl res" using Cons.prems(2) [rule_format, of 0] d Suc by simp
    have "delete_each c e calls l
       = (Some (''failed to delete conflict for document '' @ fst (calls ! k') @ '': '' @ err),
          l @ map (call_request c) (take (Suc k') calls))"
    proof (rule Cons.IH)
      show "k' < length calls" using Cons.prems(1) Suc by simp
      show "\<forall>j<k'. \<not> isl (fst (DeleteDocumentRevision c e (fst (calls ! j)) (snd (calls ! j))
          (l @ map (call_request c) (take j calls))))"
      proof (intro allI impI)
        fix j assume "j < k'"
        then show "\<not> isl (fst (DeleteDocumentRevision c e (fst (calls ! j)) (snd (calls ! j))
            (l @ map (call_request c) (take j calls))))"
          using Cons.prems(2) [rule_format, of "Suc j"] l Suc by simp
      qed
      show "fst (DeleteDocumentRevision c e (fst (calls ! k')) (snd (calls ! k'))
          (l @ map (call_request c) (take k' calls))) = Inl err"
        using Cons.prems(3) l Suc by simp
    qed
    then show ?thesis using d t l Suc by (auto split: sum.splits)
  qed
qed

text \<open>
  C5. \<open>HandleQueryResponse\<close> on a decoded response. \<open>calls\<close> lists, row by row and in
  order, one pair of document id and revision for every deleted-conflict revision a row's
  value carries; the document id is the \<open>_id\<close> of the row's value, which is what the
  code passes. First: if every deletion succeeds, the call returns no error and has made
  exactly one revision-delete request per pair, in order. Second: if the \<open>k\<close>-th
  deletion is the first to fail, the call returns an error that names the document id of
  that pair and no request after the \<open>k\<close>-th has been made. The witness is the response
  with the conflicts \<open>2-aaa\<close> and \<open>3-bbb\<close> on \<open>doc7\<close>: exactly two requests for
  \<open>doc7\<close>, and when \<open>3-bbb\<close> fails the conflict of \<open>doc9\<close> is never asked for.
\<close>

theorem HandleQueryResponse_deletes_each_conflict:
  "Unmarshal_QueryResponse e queryResponse = Inr response \<Longrightarrow>
   calls = conflict_calls (Rows response) \<Longrightarrow>
   ((\<forall>j<length calls. \<not> isl (fst (DeleteDocumentRevision c e (fst (calls ! j)) (snd (calls ! j))
          (log @ map (call_request c) (take j calls))))) \<longrightarrow>
      HandleQueryResponse c e queryResponse log = (None, log @ map (call_request c) calls))
   \<and> (k < length calls
        \<and> (\<forall>j<k. \<not> isl (fst (DeleteDocumentRevision c e (fst (calls ! j)) (snd (calls ! j))
              (log @ map (call_request c) (take j calls)))))
        \<and> fst (DeleteDocumentRevision c e (fst (calls ! k)) (snd (calls ! k))
              (log @ map (call_request c) (take k calls))) = Inl err \<longrightarrow>
      HandleQueryResponse c e queryResponse log
        = (Some (''failed to delete conflict for document '' @ fst (calls ! k) @ '': '' @ err),
           log @ map (call_request c) (take (Suc k) calls)))"
  using delete_each_all_ok [of calls c e log] delete_each_first_failure [of k calls c e log err]
  by (simp add: HandleQueryResponse_def handle_rows_eq)

theorem HandleQueryResponse_deletes_each_conflict_witness:
  "conflict_calls rows1 = [(''doc7'', ''2-aaa''), (''doc7'', ''3-bbb''), (''doc9'', ''5-ccc'')]
   \<and> HandleQueryResponse client1 env_rows ''{}'' []
     = (None, [revision_request client1 ''doc7'' ''2-aaa'', revision_request client1 ''doc7'' ''3-bbb'',
               revision_request client1 ''doc9'' ''5-ccc''])
   \<and> HandleQueryResponse client1 env_rows_refused ''{}'' []
     = (Some (''failed to delete conflict for document doc7: failed to delete document revision: ''
              @ conflict_body),
        [revision_request client1 ''doc7'' ''2-aaa'', revision_request client1 ''doc7'' ''3-bbb''])"
proof -
  let ?calls = "[(''doc7'', ''2-aaa''), (''doc7'', ''3-bbb''), (''doc9'', ''5-ccc'')]"
  let ?resp = "\<lparr>TotalRows = 3, Offset = 0, Rows = rows1\<rparr>"
  have cc: "?calls = conflict_calls (Rows ?resp)" by (simp add: rows_defs)
  have u1: "Unmarshal_QueryResponse env_rows ''{}'' = Inr ?resp" by (simp add: env_rows_def)
  have u2: "Unmarshal_QueryResponse env_rows_refused ''{}'' = Inr ?resp"
    by (simp add: env_rows_refused_def env_rows_def)
  have three: "length ?calls = Suc (Suc (Suc 0))" by simp
  have a: "\<forall>j<length ?calls. \<not> isl (fst (DeleteDocumentRevision client1 env_rows (fst (?calls ! j))
          (snd (?calls ! j)) ([] @ map (call_request client1) (take j ?calls))))"
    unfolding three All_less_Suc by (simp add: eval_defs rows_defs)
  have b1: "(1::nat) < length ?calls" by simp
  have b2: "\<forall>j<1. \<not> isl (fst (DeleteDocumentRevision client1 env_rows_refused (fst (?calls ! j))
          (snd (?calls ! j)) ([] @ map (call_request client1) (take j ?calls))))"
    by (simp add: eval_defs rows_defs)
  have b3: "fst (DeleteDocumentRevision client1 env_rows_refused (fst (?calls ! 1)) (snd (?calls ! 1))
          ([] @ map (call_request client1) (take 1 ?calls)))
        = Inl (''failed to delete document revision: '' @ conflict_body)"
    by (simp add: eval_defs rows_defs)
  have cc': "conflict_calls rows1 = ?calls" by (simp add: rows_defs)
  show ?thesis
    using a b1 b2 b3 cc'
      HandleQueryResponse_deletes_each_conflict [OF u1 cc, of client1 "[]" 1
        "''failed to delete document revision: '' @ conflict_body"]
      HandleQueryResponse_deletes_each_conflict [OF u2 cc, of client1 "[]" 1
        "''failed to delete document revision: '' @ conflict_body"]
    by (simp add: call_request_def)
qed

section \<open>ResetDocument\<close>

lemma snd_GetDocument:
  "snd (GetDocument c e docID log) = log @ [get_request (doc_url c docID)]"
  by (simp add: GetDocument_def exchange_def split: http_result.splits sum.splits)

lemma snd_GetAllRevisions:
  "snd (GetAllRevisions c e docID log) = log @ [get_request (doc_url c docID @ ''?revs_info=true'')]"
  by (simp add: GetAllRevisions_def exchange_def split: http_result.splits sum.splits)

lemma snd_DeleteDocument:
  "snd (DeleteDocument c e docID log) = log @ [delete_request (doc_url c docID)]"
  by (simp add: DeleteDocument_def exchange_def split: http_result.splits)

lemma DeleteAllRevisions_log_ok:
  "DeleteAllRevisions c e docID revs log = (None, l) \<Longrightarrow>
   l = log @ map (revision_request c docID) revs"
proof (induction revs arbitrary: log)
  case Nil
  then show ?case by simp
next
  case (Cons r revs)
  obtain res l' where d: "DeleteDocumentRevision c e docID r log = (res, l')"
    by (cases "DeleteDocumentRevision c e docID r log")
  have l': "l' = log @ [revision_request c docID r]"
    using snd_DeleteDocumentRevision [of c e docID r log] d by simp
  from Cons.prems d have "DeleteAllRevisions c e docID revs l' = (None, l)"
    by (auto split: sum.splits if_splits)
  then have "l = l' @ map (revision_request c docID) revs" by (rule Cons.IH)
  then show ?case using l' by simp
qed

lemma DeleteAllRevisions_log_failed:
  "DeleteAllRevisions c e docID revs log = (Some err, l) \<Longrightarrow>
   \<exists>k<length revs. l = log @ map (revision_request c docID) (take (Suc k) revs)"
proof (induction revs arbitrary: log)
  case Nil
  then show ?case by simp
next
  case (Cons r revs)
  obtain res l' where d: "DeleteDocumentRevision c e docID r log = (res, l')"
    by (cases "DeleteDocumentRevision c e docID r log")
  have l': "l' = log @ [revision_request c docID r]"
    using snd_DeleteDocumentRevision [of c e docID r log] d by simp
  show ?case
  proof (cases "DeleteAllRevisions c e docID revs l' = (Some err, l)")
    case True
    then obtain k where "k < length revs"
      and "l = l' @ map (revision_request c docID) (take (Suc k) revs)"
      using Cons.IH by blast
    then have "Suc k < length (r # revs)
        \<and> l = log @ map (revision_request c docID) (take (Suc (Suc k)) (r # revs))"
      using l' by simp
    then show ?thesis by blast
  next
    case False
    with Cons.prems d have "l = l'" by (auto split: sum.splits if_splits)
    then have "0 < length (r # revs)
        \<and> l = log @ map (revision_request c docID) (take (Suc 0) (r # revs))"
      using l' by simp
    then show ?thesis by blast
  qed
qed

lemma Reset_step1:
  assumes "GetDocument c e docID log = (Inl err, loga)"
  shows "ResetDocument c e docID log = (Returns (Some (''failed to fetch document: '' @ err)), loga)
         \<and> loga = log @ [get_request (doc_url c docID)]"
  using assms snd_GetDocument [of c e docID log] by (simp add: ResetDocument_def)

lemma Reset_step2:
  assumes "GetDocument c e docID log = (Inr d, loga)"
    and "GetAllRevisions c e docID loga = (Inl err, logb)"
  shows "ResetDocument c e docID log = (Returns (Some (''failed to get revisions: '' @ err)), logb)
         \<and> logb = log @ [get_request (doc_url c docID),
                       get_request (doc_url c docID @ ''?revs_info=true'')]"
  using assms snd_GetDocument [of c e docID log] snd_GetAllRevisions [of c e docID loga]
  by (simp add: ResetDocument_def)

lemma Reset_step3:
  assumes "GetDocument c e docID log = (Inr d, loga)"
    and "GetAllRevisions c e docID loga = (Inr revisions, logb)"
    and "DeleteAllRevisions c e docID revisions logb = (Some err, logc)"
  shows "ResetDocument c e docID log
           = (Returns (Some (''failed to delete all revisions: '' @ err)), logc)
         \<and> (\<exists>k<length revisions.
               logc = log @ [get_request (doc_url c docID),
                           get_request (doc_url c docID @ ''?revs_info=true'')]
                        @ map (revision_request c docID) (take (Suc k) revisions))"
  using assms snd_GetDocument [of c e docID log] snd_GetAllRevisions [of c e docID loga]
    DeleteAllRevisions_log_failed [OF assms(3)]
  by (simp add: ResetDocument_def)

lemma Reset_step4:
  assumes "GetDocument c e docID log = (Inr d, loga)"
    and "GetAllRevisions c e docID loga = (Inr revisions, logb)"
    and "DeleteAllRevisions c e docID revisions logb = (None, logc)"
    and "DeleteDocument c e docID logc = (Some err, logd)"
  shows "ResetDocument c e docID log = (Returns (Some (''failed to delete document: '' @ err)), logd)
         \<and> logd = log @ [get_request (doc_url c docID),
                       get_request (doc_url c docID @ ''?revs_info=true'')]
                    @ map (revision_request c docID) revisions
                    @ [delete_request (doc_url c docID)]"
  using assms snd_GetDocument [of c e docID log] snd_GetAllRevisions [of c e docID loga]
    DeleteAllRevisions_log_ok [OF assms(3)] snd_DeleteDocument [of c e docID logc]
  by (simp add: ResetDocument_def)

lemma Reset_step5:
  assumes "GetDocument c e docID log = (Inr d, loga)"
    and "GetAllRevisions c e docID loga = (Inr revisions, logb)"
    and "DeleteAllRevisions c e docID revisions logb = (None, logc)"
    and "DeleteDocument c e docID logc = (None, logd)"
    and "CreateDocument c e d logd = (Returns (Some err), d', loge)"
  shows "ResetDocument c e docID log
           = (Returns (Some (''failed to recreate document: '' @ err)), loge)"
  using assms by (simp add: ResetDocument_def)

lemma Reset_step6:
  assumes "GetDocument c e docID log = (Inr d, loga)"
    and "GetAllRevisions c e docID loga = (Inr revisions, logb)"
    and "DeleteAllRevisions c e docID revisions logb = (None, logc)"
    and "DeleteDocument c e docID logc = (None, logd)"
    and "CreateDocument c e d logd = (Returns None, d', loge)"
  shows "ResetDocument c e docID log = (Returns None, loge)"
  using assms by (simp add: ResetDocument_def)

text \<open>
  \<open>ResetDocument\<close> runs its five steps in order and stops at the first one that returns
  an error. One conjunct per step that can return an error, and one for success: when the
  steps before it have succeeded and the step returns the error \<open>err\<close>, the call
  returns \<open>err\<close> behind the text that names the step, and the log is the one that step
  left, so no request of a later step has been made. For the first four steps the log is
  written out: the requests of the steps so far, in the order fetch document, fetch
  revision history, delete revisions, delete document.
\<close>

lemma ResetDocument_halts_at_first_failure:
  "(GetDocument c e docID log = (Inl err, loga) \<longrightarrow>
      ResetDocument c e docID log = (Returns (Some (''failed to fetch document: '' @ err)), loga)
      \<and> loga = log @ [get_request (doc_url c docID)])
   \<and> (GetDocument c e docID log = (Inr d, loga)
       \<and> GetAllRevisions c e docID loga = (Inl err, logb) \<longrightarrow>
      ResetDocument c e docID log = (Returns (Some (''failed to get revisions: '' @ err)), logb)
      \<and> logb = log @ [get_request (doc_url c docID),
                    get_request (doc_url c docID @ ''?revs_info=true'')])
   \<and> (GetDocument c e docID log = (Inr d, loga)
       \<and> GetAllRevisions c e docID loga = (Inr revisions, logb)
       \<and> DeleteAllRevisions c e docID revisions logb = (Some err, logc) \<longrightarrow>
      ResetDocument c e docID log
        = (Returns (Some (''failed to delete all revisions: '' @ err)), logc)
      \<and> (\<exists>k<length revisions.
            logc = log @ [get_request (doc_url c docID),
                        get_request (doc_url c docID @ ''?revs_info=true'')]
                     @ map (revision_request c docID) (take (Suc k) revisions)))
   \<and> (GetDocument c e docID log = (Inr d, loga)
       \<and> GetAllRevisions c e docID loga = (Inr revisions, logb)
       \<and> DeleteAllRevisions c e docID revisions logb = (None, logc)
       \<and> DeleteDocument c e docID logc = (Some err, logd) \<longrightarrow>
      ResetDocument c e docID log = (Returns (Some (''failed to delete document: '' @ err)), logd)
      \<and> logd = log @ [get_request (doc_url c docID),
                    get_request (doc_url c docID @ ''?revs_info=true'')]
                 @ map (revision_request c docID) revisions
                 @ [delete_request (doc_url c docID)])
   \<and> (GetDocument c e docID log = (Inr d, loga)
       \<and> GetAllRevisions c e docID loga = (Inr revisions, logb)
       \<and> DeleteAllRevisions c e docID revisions logb = (None, logc)
       \<and> DeleteDocument c e docID logc = (None, logd)
       \<and> CreateDocument c e d logd = (Returns (Some err), d', loge) \<longrightarrow>
      ResetDocument c e docID log
        = (Returns (Some (''failed to recreate document: '' @ err)), loge))
   \<and> (GetDocument c e docID log = (Inr d, loga)
       \<and> GetAllRevisions c e docID loga = (Inr revisions, logb)
       \<and> DeleteAllRevisions c e docID revisions logb = (None, logc)
       \<and> DeleteDocument c e docID logc = (None, logd)
       \<and> CreateDocument c e d logd = (Returns None, d', loge) \<longrightarrow>
      ResetDocument c e docID log = (Returns None, loge))"
  using Reset_step1 [of c e docID log err loga]
    Reset_step2 [of c e docID log d loga err logb]
    Reset_step3 [of c e docID log d loga revisions logb err logc]
    Reset_step4 [of c e docID log d loga revisions logb logc err logd]
    Reset_step5 [of c e docID log d loga revisions logb logc logd err d' loge]
    Reset_step6 [of c e docID log d loga revisions logb logc logd d' loge]
  by blast

lemma ResetDocument_halts_at_first_failure_example:
  "ResetDocument client1 env_unreachable ''doc1'' []
     = (Returns (Some ''failed to fetch document: connection refused''),
        [get_request ''http://10.0.0.5:5984/db/doc1''])
   \<and> ResetDocument client1 (env_rejecting ''GET'' ''http://10.0.0.5:5984/db/doc1?revs_info=true'') ''doc1'' []
     = (Returns (Some (''failed to get revisions: failed to fetch document revisions: ''
                       @ server_error_body)),
        [get_request ''http://10.0.0.5:5984/db/doc1'',
         get_request ''http://10.0.0.5:5984/db/doc1?revs_info=true''])
   \<and> ResetDocument client1 env_refused ''doc1'' []
     = (Returns (Some (''failed to delete all revisions: failed to delete revision 2-b: ''
                       @ ''failed to delete document revision: '' @ conflict_body)),
        [get_request ''http://10.0.0.5:5984/db/doc1'',
         get_request ''http://10.0.0.5:5984/db/doc1?revs_info=true'',
         delete_request ''http://10.0.0.5:5984/db/doc1?rev=3-c'',
         delete_request ''http://10.0.0.5:5984/db/doc1?rev=2-b''])
   \<and> ResetDocument client1 (env_rejecting ''DELETE'' ''http://10.0.0.5:5984/db/doc1'') ''doc1'' []
     = (Returns (Some (''failed to delete document: failed to delete document: ''
                       @ server_error_body)),
        [get_request ''http://10.0.0.5:5984/db/doc1'',
         get_request ''http://10.0.0.5:5984/db/doc1?revs_info=true'',
         delete_request ''http://10.0.0.5:5984/db/doc1?rev=3-c'',
         delete_request ''http://10.0.0.5:5984/db/doc1?rev=2-b'',
         delete_request ''http://10.0.0.5:5984/db/doc1?rev=1-a'',
         delete_request ''http://10.0.0.5:5984/db/doc1''])
   \<and> ResetDocument client1 (env_rejecting ''PUT'' ''http://10.0.0.5:5984/db/doc1'') ''doc1'' []
     = (Returns (Some (''failed to recreate document: failed to create document: ''
                       @ server_error_body)),
        [get_request ''http://10.0.0.5:5984/db/doc1'',
         get_request ''http://10.0.0.5:5984/db/doc1?revs_info=true'',
         delete_request ''http://10.0.0.5:5984/db/doc1?rev=3-c'',
         delete_request ''http://10.0.0.5:5984/db/doc1?rev=2-b'',
         delete_request ''http://10.0.0.5:5984/db/doc1?rev=1-a'',
         delete_request ''http://10.0.0.5:5984/db/doc1'',
         put_request ''http://10.0.0.5:5984/db/doc1'' ''{}''])
   \<and> ResetDocument client1 env_gone ''doc1'' []
     = (Returns None,
        [get_request ''http://10.0.0.5:5984/db/doc1'',
         get_request ''http://10.0.0.5:5984/db/doc1?revs_info=true'',
         delete_request ''http://10.0.0.5:5984/db/doc1?rev=3-c'',
         delete_request ''http://10.0.0.5:5984/db/doc1?rev=2-b'',
         delete_request ''http://10.0.0.5:5984/db/doc1?rev=1-a'',
         delete_request ''http://10.0.0.5:5984/db/doc1'',
         put_request ''http://10.0.0.5:5984/db/doc1'' ''{}''])"
proof -
  let ?g1 = "get_request ''http://10.0.0.5:5984/db/doc1''"
  let ?g2 = "get_request ''http://10.0.0.5:5984/db/doc1?revs_info=true''"
  let ?r3 = "delete_request ''http://10.0.0.5:5984/db/doc1?rev=3-c''"
  let ?r2 = "delete_request ''http://10.0.0.5:5984/db/doc1?rev=2-b''"
  let ?r1 = "delete_request ''http://10.0.0.5:5984/db/doc1?rev=1-a''"
  let ?dd = "delete_request ''http://10.0.0.5:5984/db/doc1''"
  let ?pp = "put_request ''http://10.0.0.5:5984/db/doc1'' ''{}''"
  let ?d = "[''_id'' \<mapsto> JString ''doc1'', ''_rev'' \<mapsto> JString ''3-c'']"
  let ?d' = "?d(''_rev'' := None)"
  let ?revs = "[''3-c'', ''2-b'', ''1-a'']"
  let ?e2 = "env_rejecting ''GET'' ''http://10.0.0.5:5984/db/doc1?revs_info=true''"
  let ?e4 = "env_rejecting ''DELETE'' ''http://10.0.0.5:5984/db/doc1''"
  let ?e5 = "env_rejecting ''PUT'' ''http://10.0.0.5:5984/db/doc1''"
  have h1: "GetDocument client1 env_unreachable ''doc1'' [] = (Inl ''connection refused'', [?g1])"
    by (simp add: eval_defs reset_defs)
  have h2: "GetDocument client1 ?e2 ''doc1'' [] = (Inr ?d, [?g1])
      \<and> GetAllRevisions client1 ?e2 ''doc1'' [?g1]
          = (Inl (''failed to fetch document revisions: '' @ server_error_body), [?g1, ?g2])"
    by (simp add: eval_defs reset_defs)
  have h3: "GetDocument client1 env_refused ''doc1'' [] = (Inr ?d, [?g1])
      \<and> GetAllRevisions client1 env_refused ''doc1'' [?g1] = (Inr ?revs, [?g1, ?g2])
      \<and> DeleteAllRevisions client1 env_refused ''doc1'' ?revs [?g1, ?g2]
          = (Some (''failed to delete revision 2-b: failed to delete document revision: ''
                   @ conflict_body), [?g1, ?g2, ?r3, ?r2])"
    by (simp add: eval_defs reset_defs)
  have h4: "GetDocument client1 ?e4 ''doc1'' [] = (Inr ?d, [?g1])
      \<and> GetAllRevisions client1 ?e4 ''doc1'' [?g1] = (Inr ?revs, [?g1, ?g2])
      \<and> DeleteAllRevisions client1 ?e4 ''doc1'' ?revs [?g1, ?g2] = (None, [?g1, ?g2, ?r3, ?r2, ?r1])
      \<and> DeleteDocument client1 ?e4 ''doc1'' [?g1, ?g2, ?r3, ?r2, ?r1]
          = (Some (''failed to delete document: '' @ server_error_body),
             [?g1, ?g2, ?r3, ?r2, ?r1, ?dd])"
    by (simp add: eval_defs reset_defs)
  have h5: "GetDocument client1 ?e5 ''doc1'' [] = (Inr ?d, [?g1])
      \<and> GetAllRevisions client1 ?e5 ''doc1'' [?g1] = (Inr ?revs, [?g1, ?g2])
      \<and> DeleteAllRevisions client1 ?e5 ''doc1'' ?revs [?g1, ?g2] = (None, [?g1, ?g2, ?r3, ?r2, ?r1])
      \<and> DeleteDocument client1 ?e5 ''doc1'' [?g1, ?g2, ?r3, ?r2, ?r1]
          = (None, [?g1, ?g2, ?r3, ?r2, ?r1, ?dd])
      \<and> CreateDocument client1 ?e5 ?d [?g1, ?g2, ?r3, ?r2, ?r1, ?dd]
          = (Returns (Some (''failed to create document: '' @ server_error_body)), ?d',
             [?g1, ?g2, ?r3, ?r2, ?r1, ?dd, ?pp])"
    by (simp add: eval_defs reset_defs)
  have h6: "GetDocument client1 env_gone ''doc1'' [] = (Inr ?d, [?g1])
      \<and> GetAllRevisions client1 env_gone ''doc1'' [?g1] = (Inr ?revs, [?g1, ?g2])
      \<and> DeleteAllRevisions client1 env_gone ''doc1'' ?revs [?g1, ?g2] = (None, [?g1, ?g2, ?r3, ?r2, ?r1])
      \<and> DeleteDocument client1 env_gone ''doc1'' [?g1, ?g2, ?r3, ?r2, ?r1]
          = (None, [?g1, ?g2, ?r3, ?r2, ?r1, ?dd])
      \<and> CreateDocument client1 env_gone ?d [?g1, ?g2, ?r3, ?r2, ?r1, ?dd]
          = (Returns None, ?d', [?g1, ?g2, ?r3, ?r2, ?r1, ?dd, ?pp])"
    by (simp add: eval_defs reset_defs)
  have r1: "ResetDocument client1 env_unreachable ''doc1'' []
      = (Returns (Some (''failed to fetch document: '' @ ''connection refused'')), [?g1])"
    using h1 ResetDocument_halts_at_first_failure
      [where c = client1 and e = env_unreachable and docID = "''doc1''" and log = "[]"
         and err = "''connection refused''" and loga = "[?g1]"]
    by blast
  have r2: "ResetDocument client1 ?e2 ''doc1'' []
      = (Returns (Some (''failed to get revisions: ''
                        @ (''failed to fetch document revisions: '' @ server_error_body))), [?g1, ?g2])"
    using h2 ResetDocument_halts_at_first_failure
      [where c = client1 and e = ?e2 and docID = "''doc1''" and log = "[]" and d = ?d
         and err = "''failed to fetch document revisions: '' @ server_error_body"
         and loga = "[?g1]" and logb = "[?g1, ?g2]"]
    by blast
  have r3: "ResetDocument client1 env_refused ''doc1'' []
      = (Returns (Some (''failed to delete all revisions: ''
           @ (''failed to delete revision 2-b: failed to delete document revision: '' @ conflict_body))),
         [?g1, ?g2, ?r3, ?r2])"
    using h3 ResetDocument_halts_at_first_failure
      [where c = client1 and e = env_refused and docID = "''doc1''" and log = "[]" and d = ?d
         and err = "''failed to delete revision 2-b: failed to delete document revision: '' @ conflict_body"
         and loga = "[?g1]" and logb = "[?g1, ?g2]" and revisions = ?revs
         and logc = "[?g1, ?g2, ?r3, ?r2]"]
    by blast
  have r4: "ResetDocument client1 ?e4 ''doc1'' []
      = (Returns (Some (''failed to delete document: ''
                        @ (''failed to delete document: '' @ server_error_body))),
         [?g1, ?g2, ?r3, ?r2, ?r1, ?dd])"
    using h4 ResetDocument_halts_at_first_failure
      [where c = client1 and e = ?e4 and docID = "''doc1''" and log = "[]" and d = ?d
         and err = "''failed to delete document: '' @ server_error_body"
         and loga = "[?g1]" and logb = "[?g1, ?g2]" and revisions = ?revs
         and logc = "[?g1, ?g2, ?r3, ?r2, ?r1]" and logd = "[?g1, ?g2, ?r3, ?r2, ?r1, ?dd]"]
    by blast
  have r5: "ResetDocument client1 ?e5 ''doc1'' []
      = (Returns (Some (''failed to recreate document: ''
                        @ (''failed to create document: '' @ server_error_body))),
         [?g1, ?g2, ?r3, ?r2, ?r1, ?dd, ?pp])"
    using h5 ResetDocument_halts_at_first_failure
      [where c = client1 and e = ?e5 and docID = "''doc1''" and log = "[]" and d = ?d
         and err = "''failed to create document: '' @ server_error_body"
         and loga = "[?g1]" and logb = "[?g1, ?g2]" and revisions = ?revs
         and logc = "[?g1, ?g2, ?r3, ?r2, ?r1]" and logd = "[?g1, ?g2, ?r3, ?r2, ?r1, ?dd]"
         and d' = ?d' and loge = "[?g1, ?g2, ?r3, ?r2, ?r1, ?dd, ?pp]"]
    by blast
  have r6: "ResetDocument client1 env_gone ''doc1'' []
      = (Returns None, [?g1, ?g2, ?r3, ?r2, ?r1, ?dd, ?pp])"
    using h6 ResetDocument_halts_at_first_failure
      [where c = client1 and e = env_gone and docID = "''doc1''" and log = "[]" and d = ?d
         and loga = "[?g1]" and logb = "[?g1, ?g2]" and revisions = ?revs
         and logc = "[?g1, ?g2, ?r3, ?r2, ?r1]" and logd = "[?g1, ?g2, ?r3, ?r2, ?r1, ?dd]"
         and d' = ?d' and loge = "[?g1, ?g2, ?r3, ?r2, ?r1, ?dd, ?pp]"]
    by blast
  show ?thesis using r1 r2 r3 r4 r5 r6 by simp
qed

text \<open>
  C6. \<open>ResetDocument\<close> is claimed to halt at the first failing step and to return an
  error that names it. For the steps that return their failure this holds
  (\<open>ResetDocument_halts_at_first_failure\<close>). The recreate step can also fail by
  panicking: when the body fetched in the first step has no \<open>_id\<close>, the call deletes
  the revisions and the document and then panics in \<open>CreateDocument\<close>, so no error
  naming the step is returned.
\<close>

theorem ResetDocument_without_id_panics:
  "ResetDocument client1 env_without_id ''doc1'' []
     = (Panics ''interface conversion: interface {} is nil, not string'',
        [get_request ''http://10.0.0.5:5984/db/doc1'',
         get_request ''http://10.0.0.5:5984/db/doc1?revs_info=true'',
         delete_request ''http://10.0.0.5:5984/db/doc1?rev=3-c'',
         delete_request ''http://10.0.0.5:5984/db/doc1?rev=2-b'',
         delete_request ''http://10.0.0.5:5984/db/doc1?rev=1-a'',
         delete_request ''http://10.0.0.5:5984/db/doc1''])"
  by (simp add: ResetDocument_def eval_defs reset_defs env_without_id_def doc_without_id_def)

section \<open>CreateDocument and CreateDesignDocument\<close>

lemma CreateDocument_panics:
  assumes "\<forall>s. d ''_id'' \<noteq> Some (JString s)"
  shows "CreateDocument c e d log
    = (Panics (''interface conversion: interface {} is '' @ dynamic_type (d ''_id'') @ '', not string''),
       d, log)"
  using assms by (auto simp add: CreateDocument_def split: option.splits jsonval.splits)

text \<open>
  C8. \<open>CreateDocument\<close> on a body without an \<open>_id\<close> is claimed to report a failure
  instead of crashing. The code evaluates \<open>doc["_id"].(string)\<close> first: on a body with
  no \<open>_id\<close> (lemma \<open>CreateDocument_panics\<close>: on every body whose \<open>_id\<close> is not a
  string) the call panics, before \<open>_rev\<close> is removed and before any request is made.
  No document is created, but no error is returned either.
\<close>

theorem CreateDocument_without_id_panics:
  "CreateDocument c e doc_without_id log
     = (Panics ''interface conversion: interface {} is nil, not string'', doc_without_id, log)"
  by (simp add: CreateDocument_def doc_without_id_def)

text \<open>
  C10. Whenever \<open>CreateDocument\<close> returns, with or without an error, the caller's map
  no longer has the key \<open>_rev\<close> and every other key has the value it had, and the only
  request the call can have made is the PUT of the marshalled map without \<open>_rev\<close>, at
  the document's own id. (When the call panics instead, see C8, the map is untouched.)
\<close>

theorem CreateDocument_strips_rev_in_place:
  "CreateDocument c e d log = (Returns r, d', log') \<Longrightarrow>
   d' ''_rev'' = None
   \<and> (\<forall>k. k \<noteq> ''_rev'' \<longrightarrow> d' k = d k)
   \<and> (log' = log
       \<or> (\<exists>docID body. d ''_id'' = Some (JString docID) \<and> json_Marshal e d' = Inr body
            \<and> log' = log @ [put_request (doc_url c docID) body]))"
  by (auto simp add: CreateDocument_def exchange_def Let_def
      split: option.splits jsonval.splits sum.splits http_result.splits if_splits)

theorem CreateDocument_strips_rev_in_place_witness:
  "CreateDocument client1 env_gone doc_stored []
     = (Returns None, [''_id'' \<mapsto> JString ''doc1'', ''name'' \<mapsto> JString ''x''],
        [put_request ''http://10.0.0.5:5984/db/doc1'' ''{}''])
   \<and> [''_id'' \<mapsto> JString ''doc1'', ''name'' \<mapsto> JString ''x''] ''_rev'' = None
   \<and> [''_id'' \<mapsto> JString ''doc1'', ''name'' \<mapsto> JString ''x''] ''_id'' = doc_stored ''_id''
   \<and> [''_id'' \<mapsto> JString ''doc1'', ''name'' \<mapsto> JString ''x''] ''name'' = doc_stored ''name''
   \<and> doc_stored ''_rev'' = Some (JString ''3-c'')"
proof -
  have h: "CreateDocument client1 env_gone doc_stored []
     = (Returns None, [''_id'' \<mapsto> JString ''doc1'', ''name'' \<mapsto> JString ''x''],
        [put_request ''http://10.0.0.5:5984/db/doc1'' ''{}''])"
    by (simp add: eval_defs reset_defs doc_stored_def fun_upd_twist)
  have a: "[''_id'' \<mapsto> JString ''doc1'', ''name'' \<mapsto> JString ''x''] ''_rev'' = None
      \<and> (\<forall>k. k \<noteq> ''_rev'' \<longrightarrow>
            [''_id'' \<mapsto> JString ''doc1'', ''name'' \<mapsto> JString ''x''] k = doc_stored k)"
    using CreateDocument_strips_rev_in_place [OF h] by blast
  have i: "[''_id'' \<mapsto> JString ''doc1'', ''name'' \<mapsto> JString ''x''] ''_id'' = doc_stored ''_id''"
    using a [THEN conjunct2, rule_format, of "''_id''"] by simp
  have n: "[''_id'' \<mapsto> JString ''doc1'', ''name'' \<mapsto> JString ''x''] ''name'' = doc_stored ''name''"
    using a [THEN conjunct2, rule_format, of "''name''"] by simp
  have r: "doc_stored ''_rev'' = Some (JString ''3-c'')" by (simp add: doc_stored_def)
  from h a [THEN conjunct1] i n r show ?thesis by (intro conjI)
qed

text \<open>
  C9. \<open>CreateDesignDocument\<close> never looks at the status code: whenever the body
  marshals and the server answers at all, whatever the status, the call returns the
  response body and no error, and the install-index step of \<open>main\<close> goes on.
\<close>

theorem CreateDesignDocument_ignores_status:
  "(json_Marshal e dd = Inr jsonDoc
      \<and> Do e log (put_request (BaseURL c @ ''/'' @ DBName c @ ''/_design/'' @ designDocName) jsonDoc)
          = Response status body \<longrightarrow>
    CreateDesignDocument c e designDocName dd log
      = (Inr body,
         log @ [put_request (BaseURL c @ ''/'' @ DBName c @ ''/_design/'' @ designDocName) jsonDoc]))
   \<and> (json_Marshal e designDoc = Inr jsonDoc
      \<and> Do e log (put_request (BaseURL c @ ''/'' @ DBName c @ ''/_design/rev_filter'') jsonDoc)
          = Response status body \<longrightarrow>
    install_index c e log
      = (Returns (),
         log @ [put_request (BaseURL c @ ''/'' @ DBName c @ ''/_design/rev_filter'') jsonDoc]))"
  by (simp add: CreateDesignDocument_def install_index_def exchange_def Let_def)

theorem CreateDesignDocument_ignores_status_witness:
  "CreateDesignDocument client1
       (env_rejecting ''PUT'' ''http://10.0.0.5:5984/db/_design/rev_filter'') ''rev_filter'' designDoc []
     = (Inr server_error_body, [put_request ''http://10.0.0.5:5984/db/_design/rev_filter'' ''{}''])
   \<and> install_index client1 (env_rejecting ''PUT'' ''http://10.0.0.5:5984/db/_design/rev_filter'') []
     = (Returns (), [put_request ''http://10.0.0.5:5984/db/_design/rev_filter'' ''{}''])"
proof -
  let ?e = "env_rejecting ''PUT'' ''http://10.0.0.5:5984/db/_design/rev_filter''"
  have m: "json_Marshal ?e designDoc = Inr ''{}''"
    by (simp add: eval_defs reset_defs)
  have d: "Do ?e [] (put_request (BaseURL client1 @ ''/'' @ DBName client1 @ ''/_design/'' @ ''rev_filter'') ''{}'')
      = Response 500 server_error_body"
    by (simp add: eval_defs reset_defs)
  have d': "Do ?e [] (put_request (BaseURL client1 @ ''/'' @ DBName client1 @ ''/_design/rev_filter'') ''{}'')
      = Response 500 server_error_body"
    by (simp add: eval_defs reset_defs)
  have u: "BaseURL client1 @ ''/'' @ DBName client1 @ ''/_design/rev_filter''
      = ''http://10.0.0.5:5984/db/_design/rev_filter''"
    by (simp add: client1_def)
  have "CreateDesignDocument client1 ?e ''rev_filter'' designDoc []
      = (Inr server_error_body,
         [] @ [put_request (BaseURL client1 @ ''/'' @ DBName client1 @ ''/_design/'' @ ''rev_filter'') ''{}''])
    \<and> install_index client1 ?e []
      = (Returns (),
         [] @ [put_request (BaseURL client1 @ ''/'' @ DBName client1 @ ''/_design/rev_filter'') ''{}''])"
    using m d d'
      CreateDesignDocument_ignores_status
        [where e = ?e and dd = designDoc and jsonDoc = "''{}''" and log = "[]" and c = client1
           and designDocName = "''rev_filter''" and status = 500 and body = server_error_body]
    by blast
  then show ?thesis by (simp add: client1_def)
qed

section \<open>The view of the design index\<close>

lemma digit_val_radix: "digit_val ch = Some v \<Longrightarrow> radix_digit ch = Some v"
  by (simp add: radix_digit_def)

lemma digit_val_less: 
  assumes "digit_val ch = Some v" shows "v < 10"
proof -
  from assms have "(ch, v) \<in> set (zip ''0123456789'' [0, 1, 2, 3, 4, 5, 6, 7, 8, 9])"
    unfolding digit_val_def by (rule map_of_SomeD)
  then have "v \<in> set [0, 1, 2, 3, 4, 5, 6, 7, 8, 9]" by (rule set_zip_rightD)
  then show ?thesis by auto
qed

lemma digit_val_not_digit:
  "digit_val CHR ''-'' = None" "digit_val CHR ''+'' = None"
  "digit_val CHR ''x'' = None" "digit_val CHR ''X'' = None"
  by (simp_all add: digit_val_def)

lemma digit_val_whitespace: "js_whitespace ch \<Longrightarrow> digit_val ch = None"
  by (auto simp add: js_whitespace_def digit_val_def)

lemma digit_val_Some:
  assumes "digit_val ch = Some v"
  shows "radix_digit ch = Some v \<and> v < 10 \<and> \<not> js_whitespace ch \<and> ch \<noteq> CHR ''-''
         \<and> ch \<noteq> CHR ''+'' \<and> ch \<noteq> CHR ''x'' \<and> ch \<noteq> CHR ''X''"
  using assms digit_val_radix [OF assms] digit_val_less [OF assms] digit_val_not_digit
    digit_val_whitespace [of ch]
  by auto

lemma dtoi_loop_digits:
  "dtoi_loop acc ds = Some n \<Longrightarrow> \<forall>ch\<in>set ds. digit_val ch \<noteq> None"
  by (induction ds arbitrary: acc) (auto split: option.splits)

lemma dtoi_loop_value:
  "dtoi_loop acc ds = Some n \<Longrightarrow> digits_value 10 acc ds = n"
proof (induction ds arbitrary: acc)
  case Nil
  then show ?case by simp
next
  case (Cons ch ds)
  then obtain v where v: "digit_val ch = Some v" by (auto split: option.splits)
  then have "radix_digit ch = Some v" using digit_val_Some by blast
  with Cons v show ?case by simp
qed

lemma parseInt_decimal:
  assumes "parse_decimal ds = Some n"
  shows "parseInt ds = Some (int n)"
proof -
  from assms have ne: "ds \<noteq> []" and l: "dtoi_loop 0 ds = Some n"
    by (auto simp add: parse_decimal_def split: if_splits)
  have dig: "\<forall>ch\<in>set ds. \<exists>v. digit_val ch = Some v"
    using dtoi_loop_digits [OF l] by auto
  obtain ch cs where ds: "ds = ch # cs" using ne by (cases ds) auto
  have ch: "\<not> js_whitespace ch" "ch \<noteq> CHR ''-''" "ch \<noteq> CHR ''+''"
    using dig ds digit_val_Some by fastforce+
  have "\<forall>ch\<in>set ds. is_digit_of 10 ch"
    using dig digit_val_Some by (fastforce simp add: is_digit_of_def)
  then have tw: "takeWhile (is_digit_of 10) (ch # cs) = ch # cs"
    unfolding ds by (simp only: takeWhile_eq_all_conv)
  have v: "digits_value 10 0 (ch # cs) = n" using dtoi_loop_value [OF l] ds by simp
  have hex: "take 2 (ch # cs) \<noteq> ''0x''" "take 2 (ch # cs) \<noteq> ''0X''"
  proof -
    have "cs = [] \<or> (\<exists>ch' cs'. cs = ch' # cs' \<and> ch' \<noteq> CHR ''x'' \<and> ch' \<noteq> CHR ''X'')"
    proof (cases cs)
      case Nil
      then show ?thesis by simp
    next
      case (Cons ch' cs')
      then have "ch' \<in> set ds" using ds by simp
      then have "ch' \<noteq> CHR ''x'' \<and> ch' \<noteq> CHR ''X''"
        using dig digit_val_Some by blast
      then show ?thesis using Cons by simp
    qed
    then show "take 2 (ch # cs) \<noteq> ''0x''" "take 2 (ch # cs) \<noteq> ''0X''"
      by (auto simp add: take_Suc_conv_app_nth numeral_2_eq_2)
  qed
  have s1: "dropWhile js_whitespace (ch # cs) = ch # cs" using ch by simp
  have t1: "take 1 (ch # cs) = [ch]" by simp
  have "parseInt (ch # cs) = Some (int (digits_value 10 0 (ch # cs)))"
    unfolding parseInt_def Let_def s1 t1 using ch(2,3) hex tw
    by (simp only: list.inject simp_thms if_False if_True list.distinct option.simps
        mult_1 of_nat_id not_False_eq_True)
  then show ?thesis unfolding ds v .
qed

lemma generation_prefix:
  assumes "parse_decimal ds = Some n"
  shows "takeWhile (\<lambda>ch. ch \<noteq> CHR ''-'') (ds @ CHR ''-'' # h) = ds"
proof -
  from assms have l: "dtoi_loop 0 ds = Some n"
    by (auto simp add: parse_decimal_def split: if_splits)
  have "\<forall>ch\<in>set ds. ch \<noteq> CHR ''-''"
    using dtoi_loop_digits [OF l] digit_val_Some by fastforce
  then show ?thesis by (simp add: takeWhile_append2)
qed

lemma high_rev_gen_map_decimal:
  "d ''_rev'' = Some (JString (ds @ CHR ''-'' # h)) \<Longrightarrow> parse_decimal ds = Some n \<Longrightarrow>
   high_rev_gen_map d = Inr (if n > 100000 then [(js_member d ''_id'', JSObject d)] else [])"
  by (simp add: high_rev_gen_map_def generation_prefix parseInt_decimal)

lemma doc_100001_rev: "doc_100001 ''_rev'' = Some (JString (''100001'' @ CHR ''-'' # ''abc''))"
  by (simp add: doc_100001_def)

lemma doc_100000_rev: "doc_100000 ''_rev'' = Some (JString (''100000'' @ CHR ''-'' # ''xyz''))"
  by (simp add: doc_100000_def)

lemma parse_decimal_100001: "parse_decimal ''100001'' = Some 100001"
  by (simp add: parse_decimal_def digit_val_def)

lemma parse_decimal_100000: "parse_decimal ''100000'' = Some 100000"
  by (simp add: parse_decimal_def digit_val_def)

lemma doc_100001_id: "js_member doc_100001 ''_id'' = JSValue (JString ''doc1'')"
  by (simp add: js_member_def doc_100001_def)

text \<open>
  C7, as amended. A document whose current revision id is a decimal generation \<open>n\<close>,
  a \<open>-\<close> and a rest is in the view \<open>high_rev_gen\<close> exactly when \<open>n > 100000\<close>, and
  the row emitted for it has the document's id as its key and the document itself as its
  value. The design document that \<open>main\<close> installs holds this map function under the
  view name \<open>high_rev_gen\<close>.
\<close>

theorem high_rev_gen_includes_above_threshold:
  "d ''_rev'' = Some (JString (ds @ CHR ''-'' # h)) \<Longrightarrow> parse_decimal ds = Some n \<Longrightarrow>
   high_rev_gen_map d = Inr (if n > 100000 then [(js_member d ''_id'', JSObject d)] else [])
   \<and> designDoc ''views''
       = Some (JObject [(''high_rev_gen'', JObject [(''map'', JString high_rev_gen_source)])])"
  by (simp add: high_rev_gen_map_decimal designDoc_def)

theorem high_rev_gen_includes_above_threshold_witness:
  "high_rev_gen_map doc_100001 = Inr [(JSValue (JString ''doc1''), JSObject doc_100001)]
   \<and> high_rev_gen_map doc_100000 = Inr []"
  using high_rev_gen_includes_above_threshold
      [where d = doc_100001 and ds = "''100001''" and h = "''abc''" and n = 100001,
       OF doc_100001_rev parse_decimal_100001]
    high_rev_gen_includes_above_threshold
      [where d = doc_100000 and ds = "''100000''" and h = "''xyz''" and n = 100000,
       OF doc_100000_rev parse_decimal_100000]
  by (simp add: doc_100001_id)

text \<open>
  C7, as stated, says that the view emits the integer generation prefix. For the document
  \<open>doc1\<close> at revision \<open>100001-abc\<close> the emitted row is the pair of the id \<open>doc1\<close>
  and the document: neither component is the number 100001.
\<close>

theorem high_rev_gen_emits_generation_counterexample:
  "high_rev_gen_map doc_100001 = Inr [(JSValue (JString ''doc1''), JSObject doc_100001)]
   \<and> JSValue (JString ''doc1'') \<noteq> JSValue (JNumber 100001)
   \<and> JSObject doc_100001 \<noteq> JSValue (JNumber 100001)"
  using high_rev_gen_map_decimal
      [where d = doc_100001 and ds = "''100001''" and h = "''abc''" and n = 100001,
       OF doc_100001_rev parse_decimal_100001]
  by (simp add: doc_100001_id)

end
